theory Spec2Isabelle
  imports Complex_Main "HOL-Library.Word" "HOL-Library.Log_Nat"
begin

section \<open>Parameters of the demo\<close>

text \<open>
  The module-level constants of \<^verbatim>\<open>lightweight-human-pose-estimation-3d.py\<close> and the
  key codes that \<^verbatim>\<open>main\<close> binds before its loop. Floating-point values of the
  script are modelled as exact reals, with one exception: lines 133 and 134 truncate a
  float to an integer, where an error in the last bit of the float becomes a different
  width, so these two lines are computed in binary64 (\<open>float64\<close> below).
\<close>

definition IMAGE_HEIGHT :: nat where
  "IMAGE_HEIGHT = 256"

definition STRIDE :: nat where
  "STRIDE = 8"

definition esc_code :: int where
  "esc_code = 27"

definition p_code :: int where
  "p_code = 112"

definition space_code :: int where
  "space_code = 32"

definition img_mean :: "real \<times> real \<times> real" where
  "img_mean = (128, 128, 128)"

datatype error = ZeroDivisionError | LinAlgError | ValueError | CvError

section \<open>Numeric helpers\<close>

text \<open>Python's \<^verbatim>\<open>int(x)\<close> on a float truncates towards zero.\<close>

definition py_int :: "real \<Rightarrow> int" where
  "py_int x = (if 0 \<le> x then \<lfloor>x\<rfloor> else \<lceil>x\<rceil>)"

text \<open>
  OpenCV's \<^verbatim>\<open>cvRound\<close>: the nearest integer, a tie going to the even neighbour.
\<close>

definition cv_round :: "real \<Rightarrow> int" where
  "cv_round x =
     (let f = \<lfloor>x\<rfloor>; d = x - of_int f
      in if d < 1 / 2 then f else if 1 / 2 < d then f + 1 else if even f then f else f + 1)"

text \<open>
  IEEE 754 binary64, the type of a Python \<^verbatim>\<open>float\<close>. \<open>float64 x\<close> is what an operation
  whose exact result is \<open>x\<close> returns: the nearest number with a significand of 53 bits,
  a tie going to the even significand. \<open>pow2 e\<close> is the power \<open>2 ^ e\<close> for an integer
  \<open>e\<close>, and \<open>binade x\<close> is the exponent \<open>e\<close> with \<open>2 ^ e \<le> x < 2 ^ (e + 1)\<close> of a
  positive \<open>x\<close>; below \<open>2 ^ - 1022\<close> the spacing stays that of the subnormal numbers.
  Overflow is left out: a result of \<open>2 ^ 1024\<close> or more does not arise from the
  dimensions of an array.
\<close>

definition pow2 :: "int \<Rightarrow> real" where
  "pow2 e = (if 0 \<le> e then 2 ^ nat e else 1 / 2 ^ nat (- e))"

definition binade :: "real \<Rightarrow> int" where
  "binade x = (if 1 \<le> x then bitlen \<lfloor>x\<rfloor> - 1 else - bitlen (\<lceil>1 / x\<rceil> - 1))"

definition float64 :: "real \<Rightarrow> real" where
  "float64 x =
     (if x = 0 then 0
      else let ulp = pow2 (max (binade \<bar>x\<bar>) (- 1022) - 52)
           in real_of_int (cv_round (x / ulp)) * ulp)"

section \<open>Frames and the preprocessor (lines 132 to 152 of main)\<close>

text \<open>
  A frame is a dense \<open>height \<times> width \<times> 3\<close> array of 8-bit samples: a list of rows of
  pixels. \<open>shape0\<close> and \<open>shape1\<close> are numpy's \<^verbatim>\<open>shape[0]\<close> and \<^verbatim>\<open>shape[1]\<close>.
\<close>

type_synonym sample = "8 word"
type_synonym pixel = "sample \<times> sample \<times> sample"
type_synonym image = "pixel list list"
type_synonym tensor = "real list list list list"

definition shape0 :: "'a list list \<Rightarrow> nat" where
  "shape0 a = length a"

definition shape1 :: "'a list list \<Rightarrow> nat" where
  "shape1 a = (case a of [] \<Rightarrow> 0 | r # _ \<Rightarrow> length r)"

definition rectangular :: "'a list list \<Rightarrow> bool" where
  "rectangular a = list_all (\<lambda>r. length r = shape1 a) a"

text \<open>
  Line 133, \<^verbatim>\<open>frame.shape[1]*(IMAGE_HEIGHT/frame.shape[0])\<close>, for a frame with at least
  one row: the quotient of the two integers is rounded to a float, the width is
  converted to a float, and their product is rounded.
\<close>

definition scaled_width :: "image \<Rightarrow> real" where
  "scaled_width frame =
     float64 (float64 (real (shape1 frame))
              * float64 (real IMAGE_HEIGHT / real (shape0 frame)))"

text \<open>
  Lines 133 and 134: the width the engine is configured with,
  \<^verbatim>\<open>int(IMAGE_WIDTH/STRIDE)*STRIDE\<close> for the float \<^verbatim>\<open>IMAGE_WIDTH\<close> of line 133.
  The division of line 133 raises on a frame without rows.
\<close>

definition base_width :: "image \<Rightarrow> error + int" where
  "base_width frame =
     (if shape0 frame = 0 then Inl ZeroDivisionError
      else Inr (py_int (float64 (scaled_width frame / real STRIDE)) * int STRIDE))"

text \<open>
  \<^verbatim>\<open>cv2.resize(frame, dsize=None, fx=s, fy=s)\<close>. The size of the result is the one
  OpenCV documents for an empty \<^verbatim>\<open>dsize\<close>,
  \<^verbatim>\<open>Size(round(fx*src.cols), round(fy*src.rows))\<close>, and an empty result is an error.
  The interpolated sample values are the library's business: \<open>interp\<close> supplies the
  pixel at each position of the result.
\<close>

type_synonym interpolation = "image \<Rightarrow> real \<Rightarrow> nat \<Rightarrow> nat \<Rightarrow> pixel"

definition cv_resize :: "interpolation \<Rightarrow> image \<Rightarrow> real \<Rightarrow> real \<Rightarrow> error + image" where
  "cv_resize interp src fx fy =
     (let w = cv_round (real (shape1 src) * fx);
          h = cv_round (real (shape0 src) * fy)
      in if w \<le> 0 \<or> h \<le> 0 then Inl CvError
         else Inr (map (\<lambda>y. map (\<lambda>x. interp src fx y x) [0..<nat w]) [0..<nat h]))"

text \<open>
  Lines 143 and 144: \<^verbatim>\<open>scaled_img[:, 0:shape[1] - (shape[1] % STRIDE)]\<close>.
\<close>

definition crop_stride :: "image \<Rightarrow> image" where
  "crop_stride scaled_img =
     map (take (shape1 scaled_img - shape1 scaled_img mod STRIDE)) scaled_img"

text \<open>
  Lines 149 to 152: \<^verbatim>\<open>(scaled_img.astype(np.float32) - img_mean) / 255.0\<close>, then
  \<^verbatim>\<open>transpose(2, 0, 1)\<close> and \<^verbatim>\<open>expand_dims(axis=0)\<close>.
\<close>

definition astype_float32 :: "sample \<Rightarrow> real" where
  "astype_float32 v = real (unat v)"

definition normalize_pixel :: "pixel \<Rightarrow> real \<times> real \<times> real" where
  "normalize_pixel px =
     (case (px, img_mean) of
        ((c0, c1, c2), (m0, m1, m2)) \<Rightarrow>
          ((astype_float32 c0 - m0) / 255,
           (astype_float32 c1 - m1) / 255,
           (astype_float32 c2 - m2) / 255))"

definition transpose_201 :: "('a \<times> 'a \<times> 'a) list list \<Rightarrow> 'a list list list" where
  "transpose_201 a =
     [map (map fst) a, map (map (\<lambda>p. fst (snd p))) a, map (map (\<lambda>p. snd (snd p))) a]"

definition expand_dims0 :: "'a \<Rightarrow> 'a list" where
  "expand_dims0 a = [a]"

definition normalized_img :: "image \<Rightarrow> tensor" where
  "normalized_img scaled_img =
     expand_dims0 (transpose_201 (map (map normalize_pixel) scaled_img))"

text \<open>
  Lines 138 to 152 for one frame: the input scale, the resized and cropped image and
  the tensor handed to the engine.
\<close>

definition preprocess :: "interpolation \<Rightarrow> image \<Rightarrow> error + (real \<times> image \<times> tensor)" where
  "preprocess interp frame =
     (if shape0 frame = 0 then Inl ZeroDivisionError
      else
        let input_scale = real IMAGE_HEIGHT / real (shape0 frame) in
        case cv_resize interp frame input_scale input_scale of
          Inl e \<Rightarrow> Inl e
        | Inr scaled_img \<Rightarrow>
            let cropped = crop_stride scaled_img
            in Inr (input_scale, cropped, normalized_img cropped))"


text \<open>A portrait 480p frame, 480 pixels wide and 854 high, all black.\<close>

definition frame_480x854 :: image where
  "frame_480x854 = replicate 854 (replicate 480 (0, 0, 0))"

section \<open>Coordinate transformer (rotate_poses and lines 184 to 197 of main)\<close>

type_synonym matrix = "real list list"

text \<open>
  \<^verbatim>\<open>np.linalg.inv(R)\<close> for the \<open>3 \<times> 3\<close> extrinsic rotation: the exact inverse, and
  \<^verbatim>\<open>LinAlgError\<close> for a singular matrix. The data model fixes the shape of \<open>R\<close>.
  For another shape numpy raises at the inversion (a matrix that is not square) or at
  the product with the \<open>3 \<times> 19\<close> block of a pose; the model reports \<open>ValueError\<close> for
  every such \<open>R\<close>, also where there is no pose to rotate and numpy returns the empty
  array for a square \<open>R\<close>. \<^verbatim>\<open>main\<close> calls \<^verbatim>\<open>rotate_poses\<close> with at least one pose.
\<close>

definition is_3x3 :: "matrix \<Rightarrow> bool" where
  "is_3x3 R = (length R = 3 \<and> list_all (\<lambda>r. length r = 3) R)"

definition det3 :: "matrix \<Rightarrow> real" where
  "det3 R =
     R ! 0 ! 0 * (R ! 1 ! 1 * R ! 2 ! 2 - R ! 1 ! 2 * R ! 2 ! 1)
     - R ! 0 ! 1 * (R ! 1 ! 0 * R ! 2 ! 2 - R ! 1 ! 2 * R ! 2 ! 0)
     + R ! 0 ! 2 * (R ! 1 ! 0 * R ! 2 ! 1 - R ! 1 ! 1 * R ! 2 ! 0)"

definition linalg_inv :: "matrix \<Rightarrow> error + matrix" where
  "linalg_inv R =
     (if \<not> is_3x3 R then Inl ValueError
      else if det3 R = 0 then Inl LinAlgError
      else
        let a = R ! 0 ! 0; b = R ! 0 ! 1; c = R ! 0 ! 2;
            d = R ! 1 ! 0; e = R ! 1 ! 1; f = R ! 1 ! 2;
            g = R ! 2 ! 0; h = R ! 2 ! 1; i = R ! 2 ! 2;
            dt = det3 R
        in Inr [[(e * i - f * h) / dt, (c * h - b * i) / dt, (b * f - c * e) / dt],
                [(f * g - d * i) / dt, (a * i - c * g) / dt, (c * d - a * f) / dt],
                [(d * h - e * g) / dt, (b * g - a * h) / dt, (a * e - b * d) / dt]])"

text \<open>
  numpy's \<^verbatim>\<open>a.reshape((-1, n))\<close> on a flat array, \<^verbatim>\<open>a.transpose()\<close> on a 2-D array
  with \<open>ncols\<close> columns, and \<^verbatim>\<open>np.dot(A, B)\<close> for a 2-D \<open>B\<close> with \<open>ncols\<close> columns.
\<close>

definition reshape_rows :: "nat \<Rightarrow> 'a list \<Rightarrow> 'a list list" where
  "reshape_rows n a = map (\<lambda>i. map (\<lambda>j. a ! (i * n + j)) [0..<n]) [0..<length a div n]"

definition transpose_m :: "nat \<Rightarrow> 'a list list \<Rightarrow> 'a list list" where
  "transpose_m ncols a = map (\<lambda>j. map (\<lambda>i. a ! i ! j) [0..<length a]) [0..<ncols]"

definition np_dot :: "matrix \<Rightarrow> matrix \<Rightarrow> nat \<Rightarrow> matrix" where
  "np_dot A B ncols =
     map (\<lambda>row. map (\<lambda>j. sum_list (map (\<lambda>k. row ! k * B ! k ! j) [0..<length row]))
                   [0..<ncols]) A"

text \<open>
  The body of the loop of \<^verbatim>\<open>rotate_poses\<close> for one pose: the flat pose as a
  \<open>4 \<times> K\<close> array, \<^verbatim>\<open>pose_3d[0:3, :] = np.dot(R_inv, pose_3d[0:3, :] - t)\<close> with \<open>t\<close> a
  column of three entries, and the array flattened again.
\<close>

definition rotate_pose :: "matrix \<Rightarrow> real list \<Rightarrow> real list \<Rightarrow> error + real list" where
  "rotate_pose R_inv t pose =
     (if length pose mod 4 \<noteq> 0 \<or> length t \<noteq> 3 then Inl ValueError
      else
        let k = length pose div 4;
            pose_3d = transpose_m 4 (reshape_rows 4 pose);
            shifted = map (\<lambda>r. map (\<lambda>v. v - t ! r) (pose_3d ! r)) [0..<3];
            rotated = np_dot R_inv shifted k;
            pose_3d' = rotated @ drop 3 pose_3d
        in Inr (concat (transpose_m k pose_3d')))"

fun map_result :: "('a \<Rightarrow> error + 'b) \<Rightarrow> 'a list \<Rightarrow> error + 'b list" where
  "map_result f [] = Inr []"
| "map_result f (x # xs) =
     (case f x of
        Inl e \<Rightarrow> Inl e
      | Inr y \<Rightarrow> (case map_result f xs of Inl e \<Rightarrow> Inl e | Inr ys \<Rightarrow> Inr (y # ys)))"

definition rotate_poses :: "real list list \<Rightarrow> matrix \<Rightarrow> real list \<Rightarrow> error + real list list" where
  "rotate_poses poses_3d R t =
     (case linalg_inv R of
        Inl e \<Rightarrow> Inl e
      | Inr R_inv \<Rightarrow> map_result (rotate_pose R_inv t) poses_3d)"

text \<open>
  Lines 187 to 191. \<open>get_stride c row\<close> is \<^verbatim>\<open>row[c::4]\<close> and \<open>put_stride c vals row\<close> is
  the assignment \<^verbatim>\<open>row[c::4] = vals\<close>, which numpy refuses when the lengths differ.
  The three slices are read from the copy, so they are the values before any of the
  three assignments.
\<close>

definition get_stride :: "nat \<Rightarrow> 'a list \<Rightarrow> 'a list" where
  "get_stride c row = map (\<lambda>j. row ! (c + 4 * j)) [0..<(length row + 3 - c) div 4]"

definition put_stride :: "nat \<Rightarrow> 'a list \<Rightarrow> 'a list \<Rightarrow> error + 'a list" where
  "put_stride c vals row =
     (if length vals \<noteq> (length row + 3 - c) div 4 then Inl ValueError
      else Inr (map (\<lambda>i. if i mod 4 = c then vals ! (i div 4) else row ! i) [0..<length row]))"

definition remap_pose :: "real list \<Rightarrow> error + real list" where
  "remap_pose pose =
     (let x = get_stride 0 pose; y = get_stride 1 pose; z = get_stride 2 pose in
      case put_stride 0 (map uminus z) pose of
        Inl e \<Rightarrow> Inl e
      | Inr p0 \<Rightarrow>
          (case put_stride 1 x p0 of
             Inl e \<Rightarrow> Inl e
           | Inr p1 \<Rightarrow> put_stride 2 (map uminus y) p1))"

definition axis_remap :: "real list list \<Rightarrow> error + real list list" where
  "axis_remap poses_3d = map_result remap_pose poses_3d"

text \<open>
  Line 193: \<^verbatim>\<open>poses_3d.reshape(poses_3d.shape[0], 19, -1)[:, :, 0:3]\<close>.
\<close>

definition drop_confidence :: "real list list \<Rightarrow> error + real list list list" where
  "drop_confidence poses_3d =
     map_result
       (\<lambda>pose. if length pose = 0 \<or> length pose mod 19 \<noteq> 0 then Inl ValueError
               else Inr (map (take 3) (reshape_rows (length pose div 19) pose)))
       poses_3d"

text \<open>
  Lines 194 to 197:
  \<^verbatim>\<open>(SKELETON_EDGES + 19 * np.arange(n).reshape((-1, 1, 1))).reshape((-1, 2))\<close>.
  The template \<^verbatim>\<open>Plotter3d.SKELETON_EDGES\<close> lives in a module that is not among the
  sources, so it is a parameter.
\<close>

definition build_edges :: "int list list \<Rightarrow> nat \<Rightarrow> int list list" where
  "build_edges skeleton n =
     reshape_rows 2
       (concat (concat (map (\<lambda>i. map (map (\<lambda>v. v + 19 * int i)) skeleton) [0..<n])))"

text \<open>
  Lines 184 to 197 together. With no pose the branch is skipped: \<^verbatim>\<open>poses_3d\<close> stays the
  empty array the decoder returned and \<^verbatim>\<open>edges\<close> stays \<^verbatim>\<open>[]\<close>.
\<close>

definition coordinate_transform ::
  "matrix \<Rightarrow> real list \<Rightarrow> int list list \<Rightarrow> real list list
     \<Rightarrow> error + (real list list list \<times> int list list)" where
  "coordinate_transform R t skeleton poses_3d =
     (if length poses_3d \<noteq> 0 then
        (case rotate_poses poses_3d R t of
           Inl e \<Rightarrow> Inl e
         | Inr rotated \<Rightarrow>
             (case axis_remap rotated of
                Inl e \<Rightarrow> Inl e
              | Inr remapped \<Rightarrow>
                  (case drop_confidence remapped of
                     Inl e \<Rightarrow> Inl e
                   | Inr points \<Rightarrow> Inr (points, build_edges skeleton (length points)))))
      else Inr ([], []))"

section \<open>FPS smoothing (lines 206 to 212 of main)\<close>

definition update_mean_time :: "real \<Rightarrow> real \<Rightarrow> real" where
  "update_mean_time mean_time current_time =
     (if mean_time = 0 then current_time else mean_time * 0.95 + current_time * 0.05)"

text \<open>
  The number shown after \<^verbatim>\<open>FPS:\<close>, \<^verbatim>\<open>int(1 / mean_time * 10) / 10\<close>, over the reals;
  the division raises when the mean is zero.
\<close>

definition fps_text :: "real \<Rightarrow> error + real" where
  "fps_text mean_time =
     (if mean_time = 0 then Inl ZeroDivisionError
      else Inr (real_of_int (py_int (1 / mean_time * 10)) / 10))"

text \<open>
  The estimate as the specification words it: the first sample itself, then
  \<open>0.95 \<cdot> prev + 0.05 \<cdot> new\<close>. The samples are listed newest first.
\<close>

fun spec_ema :: "real list \<Rightarrow> real" where
  "spec_ema [] = 0"
| "spec_ema [c] = c"
| "spec_ema (c # cs) = 0.95 * spec_ema cs + 0.05 * c"

section \<open>The main loop (lines 112 to 239 of main)\<close>

text \<open>
  What \<^verbatim>\<open>main\<close> takes from outside: the command line flags, the calibration, the
  skeleton template, and the external collaborators as functions (the interpolation of
  \<^verbatim>\<open>cv2.resize\<close>, the engine's results for a tensor, the decoder, and the seconds the
  tick counter measures for each frame).
\<close>

type_synonym inference_result =
  "real list list list \<times> real list list list \<times> real list list list"

record env =
  is_video :: bool
  rotate3d :: bool
  extrinsics_R :: matrix
  extrinsics_t :: "real list"
  SKELETON_EDGES :: "int list list"
  interp :: interpolation
  net_results :: "tensor \<Rightarrow> inference_result"
  parse_poses ::
    "inference_result \<Rightarrow> real \<Rightarrow> nat \<Rightarrow> real \<Rightarrow> bool \<Rightarrow> real list list \<times> real list list"
  tick_elapsed :: "nat \<Rightarrow> real"

text \<open>
  The variables of \<^verbatim>\<open>main\<close> that survive an iteration, and the key codes that the
  coming calls of \<^verbatim>\<open>cv2.waitKey\<close> return, in order (\<open>-1\<close> for a wait that timed out).
  When the list is used up no key is pressed any more: a wait with a positive delay
  times out and a wait with delay 0 never returns.
\<close>

record session =
  fx :: real
  delay :: int
  mean_time :: real
  base_width_calculated :: bool
  IMAGE_WIDTH :: "int option"
  pending_keys :: "int list"

text \<open>The calls to the outside world that an iteration makes, in order.\<close>

datatype event =
    Fetch nat
  | SetInputShape nat nat nat int
  | NetUpdate tensor
  | ParsePoses real nat real bool
  | Plot "real list list list" "int list list"
  | ShowCanvas
  | WriteCanvas nat
  | DrawPoses "real list list"
  | Elapsed real
  | PutText real
  | ShowFrame
  | WriteFrame
  | WaitKey int int

datatype control = Continue | Break | Raise error | Hang

datatype outcome = Finished | Raised error | Hung

definition initial_session :: "int list \<Rightarrow> session" where
  "initial_session ks =
     \<lparr>fx = - 1, delay = 1, mean_time = 0, base_width_calculated = False,
      IMAGE_WIDTH = None, pending_keys = ks\<rparr>"

text \<open>Lines 132 to 136.\<close>

definition configure_width :: "session \<Rightarrow> image \<Rightarrow> error + (session \<times> event list)" where
  "configure_width s frame =
     (if \<not> base_width_calculated s then
        (case base_width frame of
           Inl e \<Rightarrow> Inl e
         | Inr w \<Rightarrow>
             Inr (s\<lparr>IMAGE_WIDTH := Some w, base_width_calculated := True\<rparr>,
                  [SetInputShape 1 3 IMAGE_HEIGHT w]))
      else Inr (s, []))"

text \<open>Lines 146 and 147.\<close>

definition focal_length :: "session \<Rightarrow> image \<Rightarrow> session" where
  "focal_length s frame = (if fx s < 0 then s\<lparr>fx := 0.8 * real (shape1 frame)\<rparr> else s)"

text \<open>\<^verbatim>\<open>cv2.waitKey(d)\<close> against the list of coming key codes.\<close>

definition wait_key :: "int \<Rightarrow> int list \<Rightarrow> (int \<times> int list) option" where
  "wait_key d ks =
     (case ks of
        k # rest \<Rightarrow> Some (k, rest)
      | [] \<Rightarrow> if d = 0 then None else Some (- 1, []))"

text \<open>
  Lines 229 to 235, the poll while the 3D canvas may be rotated. It returns the key that
  ended it, or \<open>None\<close> when no such key ever comes.
\<close>

fun rotate_loop ::
  "real list list list \<Rightarrow> int list list \<Rightarrow> int \<Rightarrow> int list
     \<Rightarrow> int option \<times> int list \<times> event list" where
  "rotate_loop poses_3d edges key ks =
     (if key \<noteq> p_code \<and> key \<noteq> esc_code \<and> key \<noteq> space_code then
        (case ks of
           [] \<Rightarrow> (None, [], [])
         | k # rest \<Rightarrow>
             (case rotate_loop poses_3d edges k rest of
                (r, ks', ev) \<Rightarrow>
                  (r, ks', [Plot poses_3d edges, ShowCanvas, WaitKey 33 k] @ ev)))
      else (Some key, ks, []))"

declare rotate_loop.simps [simp del]

text \<open>Lines 219 to 239.\<close>

definition playback_control ::
  "bool \<Rightarrow> real list list list \<Rightarrow> int list list \<Rightarrow> session
     \<Rightarrow> control \<times> session \<times> event list" where
  "playback_control rot poses_3d edges s =
     (case wait_key (delay s) (pending_keys s) of
        None \<Rightarrow> (Hang, s, [])
      | Some (key, ks) \<Rightarrow>
          if key = esc_code then (Break, s\<lparr>pending_keys := ks\<rparr>, [WaitKey (delay s) key])
          else
            let d = (if key = p_code then (if delay s = 1 then 0 else 1) else delay s) in
            if d = 0 \<and> rot then
              (case rotate_loop poses_3d edges 0 ks of
                 (None, ks', ev) \<Rightarrow>
                   (Hang, s\<lparr>delay := d, pending_keys := ks'\<rparr>, WaitKey (delay s) key # ev)
               | (Some key', ks', ev) \<Rightarrow>
                   if key' = esc_code
                   then (Break, s\<lparr>delay := d, pending_keys := ks'\<rparr>,
                         WaitKey (delay s) key # ev)
                   else (Continue, s\<lparr>delay := 1, pending_keys := ks'\<rparr>,
                         WaitKey (delay s) key # ev))
            else (Continue, s\<lparr>delay := d, pending_keys := ks\<rparr>, [WaitKey (delay s) key]))"

text \<open>
  Lines 198 to 239: the scene is drawn and shown or saved, the 2D overlay and the FPS
  readout are drawn on the frame, the frame is shown or saved, and the keyboard is
  polled. The renderer and the display calls are external; what the code hands them
  is logged.
\<close>

definition render_and_control ::
  "env \<Rightarrow> session \<Rightarrow> nat \<Rightarrow> real list list list \<Rightarrow> int list list \<Rightarrow> real list list
     \<Rightarrow> control \<times> session \<times> event list" where
  "render_and_control env s frame_id poses_3d edges poses_2d =
     (let ev1 = [Plot poses_3d edges,
                 if is_video env then ShowCanvas else WriteCanvas frame_id,
                 DrawPoses poses_2d];
          current_time = tick_elapsed env frame_id;
          s1 = s\<lparr>mean_time := update_mean_time (mean_time s) current_time\<rparr>
      in (case fps_text (mean_time s1) of
            Inl e \<Rightarrow> (Raise e, s1, ev1 @ [Elapsed current_time])
          | Inr fps \<Rightarrow>
              (case playback_control (rotate3d env) poses_3d edges s1 of
                 (c, s2, ev2) \<Rightarrow>
                   (c, s2,
                    ev1 @ [Elapsed current_time, PutText fps,
                           if is_video env then ShowFrame else WriteFrame] @ ev2))))"

text \<open>
  One iteration of the loop for a frame that is not \<^verbatim>\<open>None\<close>. In image mode the engine
  runs five times on the same tensor. \<open>net_results\<close> stands for
  \<^verbatim>\<open>set_input_blob_data\<close>, \<^verbatim>\<open>update\<close>, \<^verbatim>\<open>get_results\<close> and the selection of the last
  scale on lines 171 to 175; the first component of what \<open>parse_poses\<close> returns is
  \<^verbatim>\<open>poses_3d\<close>, an array with one flat row per person, the second \<^verbatim>\<open>poses_2d\<close>.
\<close>

definition loop_body ::
  "env \<Rightarrow> session \<Rightarrow> nat \<Rightarrow> image \<Rightarrow> control \<times> session \<times> event list" where
  "loop_body env s frame_id frame =
     (case configure_width s frame of
        Inl e \<Rightarrow> (Raise e, s, [])
      | Inr (s1, ev1) \<Rightarrow>
          (case preprocess (interp env) frame of
             Inl e \<Rightarrow> (Raise e, s1, ev1)
           | Inr (input_scale, scaled_img, normalized) \<Rightarrow>
               (let s2 = focal_length s1 frame;
                    ev2 = replicate (if is_video env then 1 else 5) (NetUpdate normalized)
                          @ [ParsePoses input_scale STRIDE (fx s2) (is_video env)];
                    decoded = parse_poses env (net_results env normalized)
                                input_scale STRIDE (fx s2) (is_video env)
                in (case coordinate_transform (extrinsics_R env) (extrinsics_t env)
                           (SKELETON_EDGES env) (fst decoded) of
                      Inl e \<Rightarrow> (Raise e, s2, ev1 @ ev2)
                    | Inr (poses_3d, edges) \<Rightarrow>
                        (case render_and_control env s2 frame_id poses_3d edges
                                (snd decoded) of
                           (c, s3, ev3) \<Rightarrow> (c, s3, ev1 @ ev2 @ ev3))))))"

text \<open>
  The \<^verbatim>\<open>for\<close> loop over the frame provider: the frames it yields, \<open>None\<close> for the
  end-of-stream value.
\<close>

fun main_loop ::
  "env \<Rightarrow> session \<Rightarrow> nat \<Rightarrow> image option list \<Rightarrow> outcome \<times> session \<times> event list" where
  "main_loop env s frame_id [] = (Finished, s, [])"
| "main_loop env s frame_id (None # rest) = (Finished, s, [Fetch frame_id])"
| "main_loop env s frame_id (Some frame # rest) =
     (case loop_body env s frame_id frame of
        (c, s', ev) \<Rightarrow>
          (case c of
             Continue \<Rightarrow>
               (case main_loop env s' (Suc frame_id) rest of
                  (out, s'', ev') \<Rightarrow> (out, s'', Fetch frame_id # ev @ ev'))
           | Break \<Rightarrow> (Finished, s', Fetch frame_id # ev)
           | Raise e \<Rightarrow> (Raised e, s', Fetch frame_id # ev)
           | Hang \<Rightarrow> (Hung, s', Fetch frame_id # ev)))"

text \<open>
  \<^verbatim>\<open>main\<close> from line 112 on: the variables get their initial values and the loop runs
  over the provider's frames. What comes before (the model files, the windows, reading
  the calibration file, creating the engine) either aborts the script or supplies the
  environment; the \<^verbatim>\<open>print\<close> calls are left out.
\<close>

definition main :: "env \<Rightarrow> int list \<Rightarrow> image option list \<Rightarrow> outcome \<times> session \<times> event list" where
  "main env ks frames = main_loop env (initial_session ks) 0 frames"

text \<open>
  What the claims take for granted about the skeleton template: every edge is a pair of
  keypoint indices from 0 to 18.
\<close>

definition wf_skeleton :: "int list list \<Rightarrow> bool" where
  "wf_skeleton skeleton =
     list_all (\<lambda>e. length e = 2 \<and> list_all (\<lambda>v. 0 \<le> v \<and> v < 19) e) skeleton"

text \<open>A small template for concrete runs: three bones.\<close>

definition skeleton3 :: "int list list" where
  "skeleton3 = [[0, 1], [1, 2], [17, 18]]"


definition interp_corner :: interpolation where
  "interp_corner src s y x = src ! 0 ! 0"

text \<open>The identity matrix, a rotation by a quarter turn about the third axis, a
  translation and one flat pose of 19 keypoints, for concrete runs.\<close>

definition identity3 :: matrix where
  "identity3 = [[1, 0, 0], [0, 1, 0], [0, 0, 1]]"

definition R_demo :: matrix where
  "R_demo = [[0, - 1, 0], [1, 0, 0], [0, 0, 1]]"

definition t_demo :: "real list" where
  "t_demo = [1, 2, 3]"

definition pose_demo :: "real list" where
  "pose_demo = [4, 6, 8, 1 / 2] @ replicate 72 0"

section \<open>Reading the log of a run\<close>

text \<open>
  The widths the engine was configured with, the widths of the tensors it was given,
  the focal lengths the decoder was given, the measured times, and the steps that
  concern playback (fetching a frame, waiting for a key).
\<close>

definition tensor_width :: "tensor \<Rightarrow> nat" where
  "tensor_width a = (case a of [[plane, _, _]] \<Rightarrow> shape1 plane | _ \<Rightarrow> 0)"

fun configured_width :: "event \<Rightarrow> int list" where
  "configured_width (SetInputShape b c h w) = [w]"
| "configured_width _ = []"

fun given_width :: "event \<Rightarrow> nat list" where
  "given_width (NetUpdate a) = [tensor_width a]"
| "given_width _ = []"

fun given_focal :: "event \<Rightarrow> real list" where
  "given_focal (ParsePoses input_scale stride f video) = [f]"
| "given_focal _ = []"

fun measured :: "event \<Rightarrow> real list" where
  "measured (Elapsed c) = [c]"
| "measured _ = []"

fun is_playback :: "event \<Rightarrow> bool" where
  "is_playback (Fetch n) = True"
| "is_playback (WaitKey d k) = True"
| "is_playback _ = False"

fun drawn :: "event \<Rightarrow> (real list list list \<times> int list list) list" where
  "drawn (Plot vertices edges) = [(vertices, edges)]"
| "drawn _ = []"

definition configured_widths :: "event list \<Rightarrow> int list" where
  "configured_widths ev = concat (map configured_width ev)"

definition tensor_widths :: "event list \<Rightarrow> nat list" where
  "tensor_widths ev = concat (map given_width ev)"

definition focal_lengths :: "event list \<Rightarrow> real list" where
  "focal_lengths ev = concat (map given_focal ev)"

definition samples :: "event list \<Rightarrow> real list" where
  "samples ev = concat (map measured ev)"

definition scenes :: "event list \<Rightarrow> (real list list list \<times> int list list) list" where
  "scenes ev = concat (map drawn ev)"

text \<open>
  The width of the tensor made from a frame: the resized width, cut down to a multiple
  of the stride (lines 138 to 144).
\<close>

definition processed_width :: "image \<Rightarrow> nat" where
  "processed_width frame =
     (let w = nat (cv_round (real (shape1 frame)
                             * (real IMAGE_HEIGHT / real (shape0 frame))))
      in w - w mod STRIDE)"

section \<open>A concrete setting\<close>

text \<open>
  An environment whose decoder finds nobody and whose clock measures 40 ms for frame 0
  and 20 ms for every later frame, and two black frames 256 high, one 448 wide and one
  256 wide.
\<close>

definition env_demo :: "bool \<Rightarrow> bool \<Rightarrow> env" where
  "env_demo video rot =
     \<lparr>is_video = video, rotate3d = rot, extrinsics_R = R_demo, extrinsics_t = t_demo,
      SKELETON_EDGES = skeleton3, interp = interp_corner,
      net_results = (\<lambda>a. ([], [], [])),
      parse_poses = (\<lambda>r input_scale stride f video. ([], [])),
      tick_elapsed = (\<lambda>frame_id. if frame_id = 0 then 1 / 25 else 1 / 50)\<rparr>"

definition frame_448x256 :: image where
  "frame_448x256 = replicate 256 (replicate 448 (0, 0, 0))"

definition frame_256x256 :: image where
  "frame_256x256 = replicate 256 (replicate 256 (0, 0, 0))"

text \<open>A square black frame, 392 pixels wide and high.\<close>

definition frame_392x392 :: image where
  "frame_392x392 = replicate 392 (replicate 392 (0, 0, 0))"

section \<open>Vocabulary for the playback claims\<close>

text \<open>
  The events the free-rotate poll may produce for a given scene, a key code that is
  none of the three the poll reacts to, and what one round of the poll logs.
\<close>

fun poll_event :: "real list list list \<Rightarrow> int list list \<Rightarrow> event \<Rightarrow> bool" where
  "poll_event poses_3d edges (WaitKey d k) = True"
| "poll_event poses_3d edges ShowCanvas = True"
| "poll_event poses_3d edges (Plot p g) = (p = poses_3d \<and> g = edges)"
| "poll_event poses_3d edges _ = False"

definition unknown_key :: "int \<Rightarrow> bool" where
  "unknown_key k = (k \<noteq> p_code \<and> k \<noteq> esc_code \<and> k \<noteq> space_code)"

definition poll_round :: "real list list list \<Rightarrow> int list list \<Rightarrow> int \<Rightarrow> event list" where
  "poll_round poses_3d edges k = [Plot poses_3d edges, ShowCanvas, WaitKey 33 k]"

definition frames3 :: "image option list" where
  "frames3 = [Some frame_256x256, Some frame_256x256, Some frame_256x256]"

text \<open>The delays of the calls of \<^verbatim>\<open>cv2.waitKey\<close> in a log.\<close>

fun waited :: "event \<Rightarrow> int list" where
  "waited (WaitKey d k) = [d]"
| "waited _ = []"

definition wait_delays :: "event list \<Rightarrow> int list" where
  "wait_delays ev = concat (map waited ev)"

section \<open>Shapes of the preprocessor's intermediate images\<close>

lemma shape1_replicate:
  "shape1 (replicate n r) = (if n = 0 then 0 else length r)"
  by (cases n) (simp_all add: shape1_def)

lemma shape1_map_upt:
  "shape1 (map (\<lambda>y. map (g y) [0..<w]) [0..<h]) = (if h = 0 then 0 else w)"
proof (cases h)
  case 0
  then show ?thesis by (simp add: shape1_def)
next
  case (Suc k)
  then have "[0..<h] = 0 # [Suc 0..<Suc k]"
    by (simp add: upt_conv_Cons)
  then show ?thesis using Suc by (simp add: shape1_def)
qed

lemma cv_resize_shape:
  assumes "cv_resize ip src sx sy = Inr scaled"
  shows "shape0 scaled = nat (cv_round (real (shape0 src) * sy))"
    and "shape1 scaled = nat (cv_round (real (shape1 src) * sx))"
    and "rectangular scaled"
    and "0 < cv_round (real (shape0 src) * sy)"
    and "0 < cv_round (real (shape1 src) * sx)"
proof -
  let ?w = "cv_round (real (shape1 src) * sx)"
  let ?h = "cv_round (real (shape0 src) * sy)"
  from assms have pos: "0 < ?w" "0 < ?h"
    by (auto simp: cv_resize_def Let_def split: if_splits)
  from assms pos have sc:
    "scaled = map (\<lambda>y. map (\<lambda>x. ip src sx y x) [0..<nat ?w]) [0..<nat ?h]"
    by (auto simp: cv_resize_def Let_def split: if_splits)
  show "shape0 scaled = nat ?h" by (simp add: sc shape0_def)
  show w: "shape1 scaled = nat ?w"
    using pos by (simp only: sc shape1_map_upt) simp
  show "rectangular scaled"
    unfolding rectangular_def w by (simp add: sc list_all_iff)
  show "0 < ?h" "0 < ?w" by (rule pos)+
qed

lemma shape1_crop_stride:
  assumes "rectangular a"
  shows "shape1 (crop_stride a) = shape1 a - shape1 a mod STRIDE"
proof (cases a)
  case Nil
  then show ?thesis by (simp add: crop_stride_def shape1_def)
next
  case (Cons r rs)
  then show ?thesis
    by (simp add: crop_stride_def shape1_def)
qed

lemma crop_stride_rows:
  assumes "rectangular a"
  shows "shape0 (crop_stride a) = shape0 a"
    and "rectangular (crop_stride a)"
proof -
  show "shape0 (crop_stride a) = shape0 a"
    by (simp add: crop_stride_def shape0_def)
  have "\<forall>r \<in> set a. length r = shape1 a"
    using assms by (simp add: rectangular_def list_all_iff)
  then show "rectangular (crop_stride a)"
    unfolding rectangular_def shape1_crop_stride [OF assms]
    by (simp add: crop_stride_def list_all_iff)
qed

section \<open>Results that may fail: map_result\<close>

lemma map_result_Inr_iff:
  "map_result f xs = Inr ys \<longleftrightarrow>
     length ys = length xs \<and> (\<forall>i<length xs. f (xs ! i) = Inr (ys ! i))"
proof (induction xs arbitrary: ys)
  case Nil
  then show ?case by auto
next
  case (Cons x xs)
  show ?case
  proof (cases ys)
    case Nil
    then show ?thesis by (auto split: sum.splits)
  next
    case (Cons y zs)
    have "(\<forall>i<Suc (length xs). f ((x # xs) ! i) = Inr ((y # zs) ! i)) \<longleftrightarrow>
          f x = Inr y \<and> (\<forall>i<length xs. f (xs ! i) = Inr (zs ! i))"
      by (auto simp: nth_Cons split: nat.splits)
    then show ?thesis
      using Cons.IH [of zs] Cons by (auto split: sum.splits)
  qed
qed

lemma map_result_total:
  assumes "\<And>x. x \<in> set xs \<Longrightarrow> \<exists>y. f x = Inr y"
  shows "\<exists>ys. map_result f xs = Inr ys"
  using assms
proof (induction xs)
  case Nil
  then show ?case by simp
next
  case (Cons x xs)
  then obtain y where "f x = Inr y" by force
  moreover from Cons obtain ys where "map_result f xs = Inr ys" by force
  ultimately show ?case by simp
qed

section \<open>Strided slices and the axis remap\<close>

lemma mod4_facts:
  "(4 * k) mod 4 = (0::nat)" "(4 * k + 1) mod 4 = (1::nat)"
  "(4 * k + 2) mod 4 = (2::nat)" "(4 * k + 3) mod 4 = (3::nat)"
  "(4 * k) div 4 = (k::nat)" "(4 * k + 1) div 4 = k"
  "(4 * k + 2) div 4 = k" "(4 * k + 3) div 4 = k"
  "Suc (4 * k) mod 4 = Suc 0" "Suc (Suc (4 * k)) mod 4 = 2"
  "Suc (4 * k) div 4 = k" "Suc (Suc (4 * k)) div 4 = k"
  by presburger+

lemma get_stride_props:
  assumes "length row = 4 * m" "c < 4"
  shows "length (get_stride c row) = m"
    and "k < m \<Longrightarrow> get_stride c row ! k = row ! (c + 4 * k)"
proof -
  from assms show l: "length (get_stride c row) = m"
    by (simp add: get_stride_def)
  assume "k < m"
  then show "get_stride c row ! k = row ! (c + 4 * k)"
    using l by (simp add: get_stride_def)
qed

lemma remap_pose_entries:
  assumes len: "length p = 4 * m"
  shows "\<exists>q. remap_pose p = Inr q \<and> length q = 4 * m \<and>
    (\<forall>k<m. q ! (4 * k) = - p ! (4 * k + 2) \<and> q ! (4 * k + 1) = p ! (4 * k)
       \<and> q ! (4 * k + 2) = - p ! (4 * k + 1) \<and> q ! (4 * k + 3) = p ! (4 * k + 3))"
proof -
  let ?x = "get_stride 0 p" and ?y = "get_stride 1 p" and ?z = "get_stride 2 p"
  have lx: "length ?x = m" and ly: "length ?y = m" and lz: "length ?z = m"
    using len by (simp_all add: get_stride_props(1))
  define p0 where
    "p0 = map (\<lambda>i. if i mod 4 = 0 then map uminus ?z ! (i div 4) else p ! i) [0..<length p]"
  define p1 where
    "p1 = map (\<lambda>i. if i mod 4 = 1 then ?x ! (i div 4) else p0 ! i) [0..<length p0]"
  define p2 where
    "p2 = map (\<lambda>i. if i mod 4 = 2 then map uminus ?y ! (i div 4) else p1 ! i) [0..<length p1]"
  have l0: "length p0 = 4 * m" by (simp add: p0_def len)
  have l1: "length p1 = 4 * m" by (simp add: p1_def l0)
  have l2: "length p2 = 4 * m" by (simp add: p2_def l1)
  have s0: "put_stride 0 (map uminus ?z) p = Inr p0"
    unfolding put_stride_def p0_def using lz len by simp
  have s1: "put_stride 1 ?x p0 = Inr p1"
    unfolding put_stride_def p1_def using lx l0 by simp
  have s2: "put_stride 2 (map uminus ?y) p1 = Inr p2"
    unfolding put_stride_def p2_def using ly l1 by simp
  have r: "remap_pose p = Inr p2"
    by (simp only: remap_pose_def Let_def s0 s1 s2 sum.case)
  have e: "p2 ! (4 * k) = - p ! (4 * k + 2) \<and> p2 ! (4 * k + 1) = p ! (4 * k)
       \<and> p2 ! (4 * k + 2) = - p ! (4 * k + 1) \<and> p2 ! (4 * k + 3) = p ! (4 * k + 3)"
    if k: "k < m" for k
  proof -
    from k have b: "4 * k < 4 * m" "4 * k + 1 < 4 * m" "4 * k + 2 < 4 * m" "4 * k + 3 < 4 * m"
      by simp_all
    have z: "map uminus ?z ! k = - p ! (4 * k + 2)"
      using k lz get_stride_props(2) [OF len, of 2 k] by (simp add: add.commute)
    have y: "map uminus ?y ! k = - p ! (4 * k + 1)"
      using k ly get_stride_props(2) [OF len, of 1 k] by (simp add: add.commute)
    have x: "?x ! k = p ! (4 * k)"
      using k get_stride_props(2) [OF len, of 0 k] by simp
    have a0: "p0 ! (4 * k) = - p ! (4 * k + 2)" "p0 ! (4 * k + 1) = p ! (4 * k + 1)"
      "p0 ! (4 * k + 2) = p ! (4 * k + 2)" "p0 ! (4 * k + 3) = p ! (4 * k + 3)"
      using b z by (simp_all add: p0_def len mod4_facts del: mult_Suc_right)
    have a1: "p1 ! (4 * k) = - p ! (4 * k + 2)" "p1 ! (4 * k + 1) = p ! (4 * k)"
      "p1 ! (4 * k + 2) = p ! (4 * k + 2)" "p1 ! (4 * k + 3) = p ! (4 * k + 3)"
      using b x a0 by (simp_all add: p1_def l0 mod4_facts)
    show ?thesis
      using b y a1 by (simp add: p2_def l1 mod4_facts)
  qed
  from r l2 e show ?thesis by blast
qed

section \<open>Reshaping and the edge list\<close>

lemma reshape_rows_append:
  assumes "length r = n" "0 < n"
  shows "reshape_rows n (r @ a) = r # reshape_rows n a"
proof -
  have d: "(n + length a) div n = Suc (length a div n)"
    using assms(2) by simp
  have h: "map (\<lambda>j. (r @ a) ! j) [0..<n] = r"
    using assms(1) by (auto simp: nth_append intro: nth_equalityI)
  have t: "map (\<lambda>j. (r @ a) ! (Suc i * n + j)) [0..<n] = map (\<lambda>j. a ! (i * n + j)) [0..<n]" for i
    using assms(1) by (simp add: nth_append)
  show ?thesis
    unfolding reshape_rows_def
    by (simp add: assms(1) d map_upt_Suc h t del: upt_Suc mult_Suc)
qed

lemma reshape_rows_concat:
  assumes "\<forall>r \<in> set rows. length r = n" "0 < n"
  shows "reshape_rows n (concat rows) = rows"
  using assms
proof (induction rows)
  case Nil
  then show ?case by (simp add: reshape_rows_def)
next
  case (Cons r rows)
  then show ?case by (simp add: reshape_rows_append)
qed

lemma length_concat_map_upt:
  assumes "\<And>i. i < n \<Longrightarrow> length (f i) = k"
  shows "length (concat (map f [0..<n])) = n * k"
  using assms by (induction n) simp_all

lemma nth_concat_map_upt:
  assumes "\<And>i. i < n \<Longrightarrow> length (f i) = k" "i < n" "j < k"
  shows "concat (map f [0..<n]) ! (i * k + j) = f i ! j"
  using assms
proof (induction n)
  case 0
  then show ?case by simp
next
  case (Suc n)
  have l: "length (concat (map f [0..<n])) = n * k"
    using Suc.prems(1) by (simp add: length_concat_map_upt)
  show ?case
  proof (cases "i < n")
    case True
    then have "Suc i \<le> n" by simp
    then have "Suc i * k \<le> n * k" by (rule mult_le_mono1)
    then have "i * k + j < n * k" using Suc.prems(3) by simp
    then show ?thesis
      using True Suc.IH Suc.prems l by (simp add: nth_append)
  next
    case False
    then have "i = n" using Suc.prems(2) by simp
    then show ?thesis using l Suc.prems by (simp add: nth_append)
  qed
qed

lemma build_edges_rows:
  assumes "list_all (\<lambda>e. length e = 2) skeleton"
  shows "build_edges skeleton n =
           concat (map (\<lambda>i. map (map (\<lambda>v. v + 19 * int i)) skeleton) [0..<n])"
  unfolding build_edges_def using assms
  by (intro reshape_rows_concat) (auto simp: list_all_iff)


text \<open>
  Claim C7. For \<open>n \<ge> 1\<close> detected people and a template of \<open>K\<close> edges whose indices
  are all from 0 to 18, the edge list built on lines 194 to 197 has exactly \<open>n * K\<close>
  edges, the edges of person \<open>i\<close> are the template's with \<open>19 * i\<close> added to every
  index, and every index of the list is in \<open>[0, 19 * n)\<close>.
\<close>

theorem build_edges_offsets:
  assumes "1 \<le> n" "wf_skeleton skeleton"
  shows "length (build_edges skeleton n) = n * length skeleton
       \<and> (\<forall>i<n. \<forall>j<length skeleton.
             build_edges skeleton n ! (i * length skeleton + j)
               = map (\<lambda>v. v + 19 * int i) (skeleton ! j))
       \<and> (\<forall>e \<in> set (build_edges skeleton n). length e = 2 \<and> (\<forall>v \<in> set e. 0 \<le> v \<and> v < 19 * int n))"
proof -
  let ?f = "\<lambda>i. map (map (\<lambda>v. v + 19 * int i)) skeleton"
  from assms(2) have two: "list_all (\<lambda>e. length e = 2) skeleton"
    by (simp add: wf_skeleton_def list_all_iff)
  have rows: "build_edges skeleton n = concat (map ?f [0..<n])"
    by (rule build_edges_rows [OF two])
  have len: "length (build_edges skeleton n) = n * length skeleton"
    unfolding rows by (rule length_concat_map_upt) simp
  have nth: "build_edges skeleton n ! (i * length skeleton + j)
               = map (\<lambda>v. v + 19 * int i) (skeleton ! j)"
    if "i < n" "j < length skeleton" for i j
  proof -
    have "concat (map ?f [0..<n]) ! (i * length skeleton + j) = ?f i ! j"
      using that by (intro nth_concat_map_upt) simp_all
    then show ?thesis using that by (simp add: rows)
  qed
  have rng: "length e = 2 \<and> (\<forall>v \<in> set e. 0 \<le> v \<and> v < 19 * int n)"
    if "e \<in> set (build_edges skeleton n)" for e
  proof -
    from that obtain i e0 where i: "i < n" and e0: "e0 \<in> set skeleton"
      and e: "e = map (\<lambda>v. v + 19 * int i) e0"
      by (auto simp: rows)
    from e0 assms(2) have b: "length e0 = 2" "\<forall>v \<in> set e0. 0 \<le> v \<and> v < 19"
      by (auto simp: wf_skeleton_def list_all_iff)
    have "19 * int i + 19 \<le> 19 * int n" using i by simp
    then show ?thesis using b e by auto
  qed
  from len nth rng show ?thesis by blast
qed


theorem build_edges_offsets_witness:
  "(1::nat) \<le> 2 \<and> wf_skeleton skeleton3
     \<and> length (build_edges skeleton3 2) = 2 * length skeleton3
     \<and> build_edges skeleton3 2 ! (1 * length skeleton3 + 2) = [36, 37]"
proof -
  have n: "(1::nat) \<le> 2" by simp
  have w: "wf_skeleton skeleton3"
    by (simp add: wf_skeleton_def skeleton3_def)
  note t = build_edges_offsets [OF n w]
  from t have a: "length (build_edges skeleton3 2) = 2 * length skeleton3"
    by blast
  from t have "\<forall>j<length skeleton3. build_edges skeleton3 2 ! (1 * length skeleton3 + j)
                 = map (\<lambda>v. v + 19 * int 1) (skeleton3 ! j)"
    by (metis one_less_numeral_iff semiring_norm(76))
  then have "build_edges skeleton3 2 ! (1 * length skeleton3 + 2)
                 = map (\<lambda>v. v + 19 * int 1) (skeleton3 ! 2)"
    by (simp add: skeleton3_def)
  then have b: "build_edges skeleton3 2 ! (1 * length skeleton3 + 2) = [36, 37]"
    by (simp add: skeleton3_def)
  from n w a b show ?thesis by blast
qed

section \<open>Rounding\<close>

text \<open>
  \<open>cv_round\<close> is within one half of its argument and monotone at the integers.
  \<open>binade\<close> is the binary exponent, so that for a positive \<open>x\<close> in the normal range
  \<open>float64 x\<close> is an integer significand between \<open>2 ^ 52\<close> and \<open>2 ^ 53\<close> times
  \<open>2 ^ (binade x - 52)\<close>, at most half a unit in the last place from \<open>x\<close>.
\<close>

lemma cv_round_of_nat: "cv_round (real n) = int n"
  by (simp add: cv_round_def Let_def)

lemma cv_round_close: "\<bar>real_of_int (cv_round x) - x\<bar> \<le> 1 / 2"
  unfolding cv_round_def Let_def by (auto simp: abs_if) linarith+

lemma cv_round_bounds:
  "real_of_int n \<le> x \<Longrightarrow> n \<le> cv_round x"
  "x \<le> real_of_int n \<Longrightarrow> cv_round x \<le> n"
  unfolding cv_round_def Let_def by (auto simp: not_less) linarith+

lemma pow2_pos: "0 < pow2 e"
  by (simp add: pow2_def)

lemma pow2_add: "pow2 (a + b) = pow2 a * pow2 b"
  by (auto simp: pow2_def nat_add_distrib field_simps simp flip: power_add)

lemma binade_bounds:
  assumes "0 < x"
  shows "pow2 (binade x) \<le> x \<and> x < pow2 (binade x + 1)"
proof (cases "1 \<le> x")
  case True
  then have p: "0 < \<lfloor>x\<rfloor>" by linarith
  define c where "c = nat (bitlen \<lfloor>x\<rfloor> - 1)"
  from bitlen_bounds [OF p] have
    b: "2 ^ c \<le> \<lfloor>x\<rfloor>" "\<lfloor>x\<rfloor> < 2 ^ nat (bitlen \<lfloor>x\<rfloor>)" by (simp_all add: c_def)
  have bl: "1 \<le> bitlen \<lfloor>x\<rfloor>" using p by (simp add: bitlen_def floorlog_def)
  then have e: "bitlen \<lfloor>x\<rfloor> = int (Suc c)" by (simp add: c_def)
  have "binade x = int c" using True e by (simp add: binade_def)
  then have bd: "pow2 (binade x) = 2 ^ c" "pow2 (binade x + 1) = 2 ^ Suc c"
    by (simp_all add: pow2_def nat_add_distrib)
  from b(1) have "(2::real) ^ c \<le> real_of_int \<lfloor>x\<rfloor>"
    by (metis of_int_le_iff of_int_numeral of_int_power)
  then have lo: "2 ^ c \<le> x" by linarith
  from e have "nat (bitlen \<lfloor>x\<rfloor>) = Suc c" by linarith
  with b(2) have "\<lfloor>x\<rfloor> + 1 \<le> 2 ^ Suc c" by simp
  then have "real_of_int (\<lfloor>x\<rfloor> + 1) \<le> 2 ^ Suc c"
    by (metis of_int_le_iff of_int_numeral of_int_power)
  then have hi: "x < 2 ^ Suc c" by linarith
  show ?thesis unfolding bd using lo hi by simp
next
  case False
  define y where "y = 1 / x"
  define m where "m = \<lceil>y\<rceil> - 1"
  have y1: "1 < y" using False assms by (simp add: y_def)
  then have p: "0 < m" unfolding m_def by linarith
  have my: "real_of_int m < y" "y \<le> real_of_int m + 1" unfolding m_def by linarith+
  define c where "c = nat (bitlen m - 1)"
  from bitlen_bounds [OF p] have b: "2 ^ c \<le> m" "m < 2 ^ nat (bitlen m)"
    by (simp_all add: c_def)
  have bl: "1 \<le> bitlen m" using p by (simp add: bitlen_def floorlog_def)
  then have e: "bitlen m = int (Suc c)" by (simp add: c_def)
  have "binade x = - int (Suc c)" using False e by (simp add: binade_def y_def m_def)
  then have bd: "pow2 (binade x) = 1 / 2 ^ Suc c" "pow2 (binade x + 1) = 1 / 2 ^ c"
    by (simp_all add: pow2_def nat_add_distrib)
  from b(1) have "(2::real) ^ c \<le> real_of_int m"
    by (metis of_int_le_iff of_int_numeral of_int_power)
  with my have lo: "2 ^ c < y" by linarith
  from e have "nat (bitlen m) = Suc c" by linarith
  with b(2) have "m + 1 \<le> 2 ^ Suc c" by simp
  then have "real_of_int (m + 1) \<le> 2 ^ Suc c"
    by (metis of_int_le_iff of_int_numeral of_int_power)
  with my have hi: "y \<le> 2 ^ Suc c" by simp
  have "1 / 2 ^ Suc c \<le> x"
    using hi assms unfolding y_def by (simp add: field_simps)
  moreover have "x < 1 / 2 ^ c"
    using lo assms unfolding y_def by (simp add: field_simps)
  ultimately show ?thesis unfolding bd by simp
qed

lemma float64_nearest:
  assumes "0 < x" "- 1022 \<le> binade x"
  shows "\<exists>m. float64 x = real_of_int m * pow2 (binade x - 52)
           \<and> 2 ^ 52 \<le> m \<and> m \<le> 2 ^ 53
           \<and> \<bar>float64 x - x\<bar> \<le> pow2 (binade x - 52) / 2"
proof -
  define u where "u = pow2 (binade x - 52)"
  define m where "m = cv_round (x / u)"
  have up: "0 < u" by (simp add: u_def pow2_pos)
  have f: "float64 x = real_of_int m * u"
    using assms by (simp add: float64_def Let_def u_def m_def max_def)
  have p: "pow2 52 = 2 ^ 52" "pow2 53 = 2 ^ 53" by (simp_all add: pow2_def)
  have "binade x = binade x - 52 + 52" "binade x + 1 = binade x - 52 + 53" by simp_all
  then have "pow2 (binade x) = u * pow2 52" "pow2 (binade x + 1) = u * pow2 53"
    unfolding u_def by (metis pow2_add)+
  then have b: "pow2 (binade x) = 2 ^ 52 * u" "pow2 (binade x + 1) = 2 ^ 53 * u"
    by (simp_all only: p mult.commute)
  from binade_bounds [OF assms(1)] b have "2 ^ 52 * u \<le> x" "x < 2 ^ 53 * u" by simp_all
  with up have q: "2 ^ 52 \<le> x / u" "x / u \<le> 2 ^ 53"
    by (simp_all add: field_simps)
  have r: "real_of_int (2 ^ 52) \<le> x / u" "x / u \<le> real_of_int (2 ^ 53)"
    using q by simp_all
  have mb: "2 ^ 52 \<le> m" "m \<le> 2 ^ 53"
    unfolding m_def using cv_round_bounds(1) [OF r(1)] cv_round_bounds(2) [OF r(2)]
    by simp_all
  have "\<bar>real_of_int m - x / u\<bar> \<le> 1 / 2"
    unfolding m_def by (rule cv_round_close)
  then have "\<bar>real_of_int m - x / u\<bar> * u \<le> 1 / 2 * u"
    using up by (simp add: mult_right_mono)
  moreover have "\<bar>real_of_int m - x / u\<bar> * u = \<bar>real_of_int m * u - x\<bar>"
    using up by (simp add: abs_mult_pos [symmetric] field_simps)
  ultimately have "\<bar>float64 x - x\<bar> \<le> u / 2" by (simp add: f)
  with f mb show ?thesis unfolding u_def by blast
qed

text \<open>
  Three values, as Python prints them with \<^verbatim>\<open>float.as_integer_ratio\<close>.
\<close>

lemma float64_examples:
  "float64 1 = 1"
  "float64 (1 / 10) = 3602879701896397 / 36028797018963968"
  "float64 (256 / 392) = 5882252574524729 / 9007199254740992"
  by code_simp+

section \<open>What the preprocessor returns\<close>

lemma preprocess_InrD:
  assumes "preprocess ip frame = Inr (s, img, tensor)"
  shows "0 < shape0 frame"
    and "s = real IMAGE_HEIGHT / real (shape0 frame)"
    and "\<exists>scaled. cv_resize ip frame s s = Inr scaled \<and> img = crop_stride scaled"
    and "tensor = normalized_img img"
  using assms
  by (auto simp: preprocess_def Let_def split: if_splits sum.splits)

lemma preprocess_shape:
  assumes "preprocess ip frame = Inr (s, img, tensor)"
  shows "shape0 img = IMAGE_HEIGHT"
    and "shape1 img = nat (cv_round (real (shape1 frame) * s))
                      - nat (cv_round (real (shape1 frame) * s)) mod STRIDE"
    and "rectangular img"
proof -
  from preprocess_InrD [OF assms] obtain scaled where
    h: "0 < shape0 frame" and s: "s = real IMAGE_HEIGHT / real (shape0 frame)"
    and sc: "cv_resize ip frame s s = Inr scaled" and img: "img = crop_stride scaled"
    by blast
  note sh = cv_resize_shape [OF sc]
  from h have "real (shape0 frame) * s = real IMAGE_HEIGHT"
    by (simp add: s)
  then have "shape0 scaled = IMAGE_HEIGHT"
    using sh(1) by (simp add: cv_round_of_nat)
  then show "shape0 img = IMAGE_HEIGHT"
    using crop_stride_rows(1) [OF sh(3)] by (simp add: img)
  show "shape1 img = nat (cv_round (real (shape1 frame) * s))
                      - nat (cv_round (real (shape1 frame) * s)) mod STRIDE"
    using shape1_crop_stride [OF sh(3)] sh(2) by (simp add: img)
  show "rectangular img"
    using crop_stride_rows(2) [OF sh(3)] by (simp add: img)
qed

lemma preprocess_succeeds:
  assumes "0 < shape0 frame"
    and "0 < cv_round (real (shape1 frame) * (real IMAGE_HEIGHT / real (shape0 frame)))"
  shows "\<exists>img tensor. preprocess ip frame
           = Inr (real IMAGE_HEIGHT / real (shape0 frame), img, tensor)"
proof -
  let ?s = "real IMAGE_HEIGHT / real (shape0 frame)"
  from assms(1) have "real (shape0 frame) * ?s = real IMAGE_HEIGHT" by simp
  then have "cv_round (real (shape0 frame) * ?s) = int IMAGE_HEIGHT"
    by (simp add: cv_round_of_nat)
  then have "0 < cv_round (real (shape0 frame) * ?s)"
    by (simp add: IMAGE_HEIGHT_def)
  with assms(2) obtain scaled where "cv_resize ip frame ?s ?s = Inr scaled"
    by (auto simp: cv_resize_def Let_def)
  with assms(1) show ?thesis
    by (simp add: preprocess_def Let_def)
qed




lemma processed_width_bounds:
  assumes "preprocess ip frame = Inr (s, img, tensor)"
  shows "STRIDE dvd shape1 img"
    and "real (shape1 img) \<le> real (shape1 frame) * real IMAGE_HEIGHT / real (shape0 frame) + 1 / 2"
proof -
  let ?w = "nat (cv_round (real (shape1 frame) * s))"
  from preprocess_shape(2) [OF assms] have w: "shape1 img = ?w - ?w mod STRIDE" .
  show "STRIDE dvd shape1 img"
    unfolding w by simp
  from preprocess_InrD [OF assms] obtain scaled where
    s: "s = real IMAGE_HEIGHT / real (shape0 frame)"
    and sc: "cv_resize ip frame s s = Inr scaled"
    by blast
  from cv_resize_shape(5) [OF sc] have "0 < cv_round (real (shape1 frame) * s)" .
  then have "real ?w = real_of_int (cv_round (real (shape1 frame) * s))" by simp
  moreover have "real_of_int (cv_round (real (shape1 frame) * s)) \<le> real (shape1 frame) * s + 1 / 2"
    using cv_round_close [of "real (shape1 frame) * s"] by linarith
  moreover have "real (shape1 img) \<le> real ?w" unfolding w by simp
  ultimately show "real (shape1 img) \<le> real (shape1 frame) * real IMAGE_HEIGHT / real (shape0 frame) + 1 / 2"
    by (simp add: s)
qed





text \<open>
  Claim C3 says that the cropped width is a multiple of the stride and at most the
  naively scaled width \<open>frame_width * IMAGE_HEIGHT / frame_height\<close>. The first half
  holds (\<open>processed_width_bounds\<close>). The second fails where the library rounds the
  scaled width up to a multiple of the stride: for a frame 480 wide and 854 high the
  naive width is about 143.89, the resized image is 144 wide, nothing is cropped, and
  the tensor is 144 wide, while lines 133 and 134 configure the engine with 136.
\<close>

theorem crop_width_480x854:
  "\<exists>img tensor. preprocess ip frame_480x854 = Inr (256 / 854, img, tensor)
      \<and> shape1 img = 144 \<and> (480 * 256 / 854 :: real) < 144
      \<and> base_width frame_480x854 = Inr 136"
proof -
  have s0: "shape0 frame_480x854 = 854" and s1: "shape1 frame_480x854 = 480"
    by (simp_all add: frame_480x854_def shape0_def shape1_replicate)
  have h: "0 < shape0 frame_480x854" by (simp add: s0)
  have w: "0 < cv_round (real (shape1 frame_480x854)
                          * (real IMAGE_HEIGHT / real (shape0 frame_480x854)))"
    by (simp add: s0 s1 IMAGE_HEIGHT_def cv_round_def Let_def)
  from preprocess_succeeds [OF h w, of ip] obtain img tensor where
    p: "preprocess ip frame_480x854 = Inr (256 / 854, img, tensor)"
    by (auto simp: s0 IMAGE_HEIGHT_def)
  from preprocess_shape(2) [OF p] have "shape1 img = 144"
    by (simp add: s1 STRIDE_def cv_round_def Let_def)
  moreover have "base_width frame_480x854 = Inr 136"
    unfolding base_width_def scaled_width_def s0 s1 by code_simp
  moreover have "(480 * 256 / 854 :: real) < 144" by simp
  ultimately show ?thesis using p by blast
qed


section \<open>The inverse rotation\<close>

lemma is_3x3_D:
  assumes "is_3x3 R"
  obtains a b c d e f g h i where "R = [[a, b, c], [d, e, f], [g, h, i]]"
proof -
  have three: "\<exists>x y z. r = [x, y, z]" if "length r = 3" for r :: "'a list"
    using that by (auto simp: numeral_3_eq_3 length_Suc_conv)
  from assms have "length R = 3" and rows: "\<forall>r \<in> set R. length r = 3"
    by (simp_all add: is_3x3_def list_all_iff)
  then obtain r0 r1 r2 where R: "R = [r0, r1, r2]"
    using three by blast
  with rows have "length r0 = 3" "length r1 = 3" "length r2 = 3" by simp_all
  then obtain a b c d e f g h i where "r0 = [a, b, c]" "r1 = [d, e, f]" "r2 = [g, h, i]"
    using three by metis
  with R that show thesis by blast
qed

lemma upt3: "[0..<3] = [0, 1, 2]"
  by (simp add: numeral_3_eq_3 numeral_2_eq_2 upt_rec)

lemma upt4: "[0..<4] = [0, 1, 2, 3]"
  by (simp add: eval_nat_numeral upt_rec)

lemma linalg_inv_inverse:
  assumes "is_3x3 R" "det3 R \<noteq> 0"
  shows "\<exists>R_inv. linalg_inv R = Inr R_inv \<and> is_3x3 R_inv
           \<and> np_dot R R_inv 3 = identity3 \<and> np_dot R_inv R 3 = identity3"
proof -
  from assms(1) obtain a b c d e f g h i where R: "R = [[a, b, c], [d, e, f], [g, h, i]]"
    by (rule is_3x3_D)
  define dt where "dt = det3 R"
  have dt: "dt = a * (e * i - f * h) - b * (d * i - f * g) + c * (d * h - e * g)"
    by (simp add: dt_def det3_def R)
  have nz: "dt \<noteq> 0" using assms(2) by (simp add: dt_def)
  define Ri where "Ri = [[(e * i - f * h) / dt, (c * h - b * i) / dt, (b * f - c * e) / dt],
                [(f * g - d * i) / dt, (a * i - c * g) / dt, (c * d - a * f) / dt],
                [(d * h - e * g) / dt, (b * g - a * h) / dt, (a * e - b * d) / dt]]"
  have inv: "linalg_inv R = Inr Ri"
    using assms by (simp add: linalg_inv_def Let_def Ri_def dt_def [symmetric]) (simp add: R)
  have r3: "is_3x3 Ri" by (simp add: Ri_def is_3x3_def)
  have q: "x / dt + y / dt + z / dt = (x + y + z) / dt" for x y z
    by (simp add: add_divide_distrib)
  have one: "x = dt \<Longrightarrow> x / dt = 1" and zero: "x = 0 \<Longrightarrow> x / dt = 0" for x
    using nz by simp_all
  have m: "u * (x / dt) = (u * x) / dt" "(x / dt) * u = (x * u) / dt" for u x
    by simp_all
  have left: "np_dot R Ri 3 = identity3"
    unfolding np_dot_def identity3_def R Ri_def
    apply (simp add: upt3 m add_divide_distrib [symmetric]
             del: times_divide_eq_right times_divide_eq_left upt_rec_numeral)
    apply (intro conjI one zero)
    using nz apply (simp_all add: dt algebra_simps)
    done
  have right: "np_dot Ri R 3 = identity3"
    unfolding np_dot_def identity3_def R Ri_def
    apply (simp add: upt3 m add_divide_distrib [symmetric]
             del: times_divide_eq_right times_divide_eq_left upt_rec_numeral)
    apply (intro conjI one zero)
    using nz apply (simp_all add: dt algebra_simps)
    done
  from inv r3 left right show ?thesis by blast
qed

lemma is_3x3_nth:
  assumes "is_3x3 A" "r < 3"
  shows "length (A ! r) = 3"
  using assms by (simp add: is_3x3_def list_all_length)

lemma rotate_pose_entries:
  assumes len: "length pose = 4 * m" and t: "length t = 3" and Ri: "is_3x3 Ri"
  shows "\<exists>q. rotate_pose Ri t pose = Inr q \<and> length q = 4 * m
    \<and> (\<forall>k<m. q ! (4 * k + 3) = pose ! (4 * k + 3)
          \<and> (\<forall>r<3. q ! (4 * k + r)
                = Ri ! r ! 0 * (pose ! (4 * k) - t ! 0)
                  + Ri ! r ! 1 * (pose ! (4 * k + 1) - t ! 1)
                  + Ri ! r ! 2 * (pose ! (4 * k + 2) - t ! 2)))"
proof -
  define P where "P = transpose_m 4 (reshape_rows 4 pose)"
  define shifted where "shifted = map (\<lambda>r. map (\<lambda>v. v - t ! r) (P ! r)) [0..<3]"
  define rotated where "rotated = np_dot Ri shifted m"
  define P' where "P' = rotated @ drop 3 P"
  define q where "q = concat (transpose_m m P')"
  have m: "length pose div 4 = m" by (simp add: len)
  have run: "rotate_pose Ri t pose = Inr q"
    by (simp add: rotate_pose_def Let_def len t q_def P'_def rotated_def shifted_def P_def)
  have lr: "length (reshape_rows 4 pose) = m"
    by (simp add: reshape_rows_def m)
  have P: "P ! j ! i = pose ! (i * 4 + j)" and lP: "length (P ! j) = m"
    if "j < 4" "i < m" for i j
    using that by (simp_all add: P_def transpose_m_def lr) (simp add: reshape_rows_def m)
  have lenP: "length P = 4" by (simp add: P_def transpose_m_def)
  have sh: "shifted ! r ! i = pose ! (i * 4 + r) - t ! r"
    if "r < 3" "i < m" for r i
    using that P [of r i] lP [of r i] by (simp add: shifted_def)
  have lrot: "length rotated = 3"
    using Ri by (simp add: rotated_def np_dot_def is_3x3_def)
  have rot: "rotated ! r ! i
      = Ri ! r ! 0 * (pose ! (i * 4) - t ! 0)
        + Ri ! r ! 1 * (pose ! (i * 4 + 1) - t ! 1)
        + Ri ! r ! 2 * (pose ! (i * 4 + 2) - t ! 2)"
    if "r < 3" "i < m" for r i
  proof -
    from Ri that(1) have l3: "length Ri = 3" "length (Ri ! r) = 3"
      by (simp_all add: is_3x3_def is_3x3_nth)
    have "rotated ! r ! i = sum_list (map (\<lambda>k. Ri ! r ! k * shifted ! k ! i) [0..<3])"
      using that l3 by (simp add: rotated_def np_dot_def del: upt_rec_numeral)
    also have "\<dots> = Ri ! r ! 0 * shifted ! 0 ! i + Ri ! r ! 1 * shifted ! 1 ! i
                      + Ri ! r ! 2 * shifted ! 2 ! i"
      by (simp add: upt3)
    finally show ?thesis
      using sh [of 0 i] sh [of 1 i] sh [of 2 i] that(2) by simp
  qed
  have lenP': "length P' = 4" by (simp add: P'_def lrot lenP)
  have P'r: "P' ! r = rotated ! r" if "r < 3" for r
    using that by (simp add: P'_def nth_append lrot)
  have P'3: "P' ! 3 = P ! 3"
    by (simp add: P'_def nth_append lrot lenP)
  have qn: "q ! (i * 4 + c) = P' ! c ! i" if "i < m" "c < 4" for i c
  proof -
    have "concat (map (\<lambda>j. map (\<lambda>i. P' ! i ! j) [0..<4]) [0..<m]) ! (i * 4 + c)
            = map (\<lambda>i'. P' ! i' ! i) [0..<4] ! c"
      using that by (intro nth_concat_map_upt) simp_all
    then show ?thesis
      using that by (simp add: q_def transpose_m_def lenP' del: upt_rec_numeral)
  qed
  have lq: "length q = 4 * m"
  proof -
    have "length (concat (map (\<lambda>j. map (\<lambda>i. P' ! i ! j) [0..<4]) [0..<m])) = m * 4"
      by (rule length_concat_map_upt) simp
    then show ?thesis by (simp add: q_def transpose_m_def lenP')
  qed
  have ent: "q ! (4 * k + 3) = pose ! (4 * k + 3)
          \<and> (\<forall>r<3. q ! (4 * k + r)
                = Ri ! r ! 0 * (pose ! (4 * k) - t ! 0)
                  + Ri ! r ! 1 * (pose ! (4 * k + 1) - t ! 1)
                  + Ri ! r ! 2 * (pose ! (4 * k + 2) - t ! 2))"
    if k: "k < m" for k
  proof (intro conjI allI impI)
    show "q ! (4 * k + 3) = pose ! (4 * k + 3)"
      using qn [OF k, of 3] P'3 P [of 3 k] k by (simp add: mult.commute)
  next
    fix r :: nat
    assume r: "r < 3"
    then have "q ! (k * 4 + r) = rotated ! r ! k"
      using qn [OF k, of r] P'r [OF r] by simp
    then show "q ! (4 * k + r)
                = Ri ! r ! 0 * (pose ! (4 * k) - t ! 0)
                  + Ri ! r ! 1 * (pose ! (4 * k + 1) - t ! 1)
                  + Ri ! r ! 2 * (pose ! (4 * k + 2) - t ! 2)"
      using rot [OF r k] by (simp add: mult.commute)
  qed
  from run lq ent show ?thesis by blast
qed

lemma rotate_poses_entries:
  assumes R: "is_3x3 R" "det3 R \<noteq> 0" and t: "length t = 3"
    and len: "list_all (\<lambda>p. length p = 76) poses_3d"
  shows "\<exists>R_inv out. linalg_inv R = Inr R_inv
      \<and> np_dot R R_inv 3 = identity3 \<and> np_dot R_inv R 3 = identity3
      \<and> rotate_poses poses_3d R t = Inr out \<and> length out = length poses_3d
      \<and> (\<forall>i<length poses_3d. length (out ! i) = 76
            \<and> (\<forall>k<19. out ! i ! (4 * k + 3) = poses_3d ! i ! (4 * k + 3)
                  \<and> (\<forall>r<3. out ! i ! (4 * k + r)
                        = R_inv ! r ! 0 * (poses_3d ! i ! (4 * k) - t ! 0)
                          + R_inv ! r ! 1 * (poses_3d ! i ! (4 * k + 1) - t ! 1)
                          + R_inv ! r ! 2 * (poses_3d ! i ! (4 * k + 2) - t ! 2))))"
proof -
  from linalg_inv_inverse [OF R] obtain Ri where
    inv: "linalg_inv R = Inr Ri" and Ri: "is_3x3 Ri"
    and id: "np_dot R Ri 3 = identity3" "np_dot Ri R 3 = identity3"
    by blast
  let ?P = "\<lambda>p q. length q = 76
            \<and> (\<forall>k<19. q ! (4 * k + 3) = p ! (4 * k + 3)
                  \<and> (\<forall>r<3. q ! (4 * k + r)
                        = Ri ! r ! 0 * (p ! (4 * k) - t ! 0)
                          + Ri ! r ! 1 * (p ! (4 * k + 1) - t ! 1)
                          + Ri ! r ! 2 * (p ! (4 * k + 2) - t ! 2)))"
  have one: "\<exists>q. rotate_pose Ri t p = Inr q \<and> ?P p q" if "p \<in> set poses_3d" for p
  proof -
    from that len have "length p = 4 * 19" by (simp add: list_all_iff)
    from rotate_pose_entries [OF this t Ri] show ?thesis by simp
  qed
  then have "\<exists>q. rotate_pose Ri t p = Inr q" if "p \<in> set poses_3d" for p
    using that by blast
  with map_result_total [of poses_3d "rotate_pose Ri t"] obtain out where
    out: "map_result (rotate_pose Ri t) poses_3d = Inr out"
    by blast
  then have l: "length out = length poses_3d"
    and each: "\<And>i. i < length poses_3d \<Longrightarrow> rotate_pose Ri t (poses_3d ! i) = Inr (out ! i)"
    by (simp_all add: map_result_Inr_iff)
  have "?P (poses_3d ! i) (out ! i)" if "i < length poses_3d" for i
    using one [of "poses_3d ! i"] each [OF that] that by auto
  moreover have "rotate_poses poses_3d R t = Inr out"
    by (simp add: rotate_poses_def inv out)
  ultimately show ?thesis using inv id l by blast
qed

lemma rotate_demo_values:
  assumes "rotate_poses [pose_demo] R_demo t_demo = Inr out"
  shows "out ! 0 ! 0 = 4" "out ! 0 ! 1 = - 3" "out ! 0 ! 2 = 5" "out ! 0 ! 3 = 1 / 2"
proof -
  have h: "is_3x3 R_demo" "det3 R_demo \<noteq> 0" "length t_demo = 3"
    "list_all (\<lambda>p. length p = 76) [pose_demo]"
    by (simp_all add: is_3x3_def det3_def R_demo_def t_demo_def pose_demo_def)
  have inv: "linalg_inv R_demo = Inr [[0, 1, 0], [- 1, 0, 0], [0, 0, 1]]"
    by (simp add: linalg_inv_def is_3x3_def det3_def R_demo_def)
  from rotate_poses_entries [OF h] inv assms have
    e: "\<forall>i<length [pose_demo]. length (out ! i) = 76
            \<and> (\<forall>k<19. out ! i ! (4 * k + 3) = [pose_demo] ! i ! (4 * k + 3)
                  \<and> (\<forall>r<3. out ! i ! (4 * k + r)
                        = [[0, 1, 0], [- 1, 0, 0], [0, 0, 1]] ! r ! 0 * ([pose_demo] ! i ! (4 * k) - t_demo ! 0)
                          + [[0, 1, 0], [- 1, 0, 0], [0, 0, 1]] ! r ! 1 * ([pose_demo] ! i ! (4 * k + 1) - t_demo ! 1)
                          + [[0, 1, 0], [- 1, 0, 0], [0, 0, 1::real]] ! r ! 2 * ([pose_demo] ! i ! (4 * k + 2) - t_demo ! 2)))"
    by auto
  then have e1: "\<forall>k<19. out ! 0 ! (4 * k + 3) = pose_demo ! (4 * k + 3)
                  \<and> (\<forall>r<3. out ! 0 ! (4 * k + r)
                        = [[0, 1, 0], [- 1, 0, 0], [0, 0, 1]] ! r ! 0 * (pose_demo ! (4 * k) - t_demo ! 0)
                          + [[0, 1, 0], [- 1, 0, 0], [0, 0, 1]] ! r ! 1 * (pose_demo ! (4 * k + 1) - t_demo ! 1)
                          + [[0, 1, 0], [- 1, 0, 0], [0, 0, 1::real]] ! r ! 2 * (pose_demo ! (4 * k + 2) - t_demo ! 2))"
    by simp
  then have c: "out ! 0 ! (4 * 0 + 3) = pose_demo ! (4 * 0 + 3)"
    and r: "\<forall>r<3. out ! 0 ! (4 * 0 + r)
                        = [[0, 1, 0], [- 1, 0, 0], [0, 0, 1]] ! r ! 0 * (pose_demo ! (4 * 0) - t_demo ! 0)
                          + [[0, 1, 0], [- 1, 0, 0], [0, 0, 1]] ! r ! 1 * (pose_demo ! (4 * 0 + 1) - t_demo ! 1)
                          + [[0, 1, 0], [- 1, 0, 0], [0, 0, 1::real]] ! r ! 2 * (pose_demo ! (4 * 0 + 2) - t_demo ! 2)"
    by (metis zero_less_numeral)+
  from c show "out ! 0 ! 3 = 1 / 2" by (simp add: pose_demo_def)
  show "out ! 0 ! 0 = 4" "out ! 0 ! 1 = - 3" "out ! 0 ! 2 = 5"
    using r [rule_format, of 0] r [rule_format, of 1] r [rule_format, of 2]
    by (simp_all add: pose_demo_def t_demo_def numeral_2_eq_2)
qed

lemma axis_remap_entries:
  assumes "list_all (\<lambda>p. length p = 76) rotated"
  shows "\<exists>remapped. axis_remap rotated = Inr remapped \<and> length remapped = length rotated
    \<and> (\<forall>i<length rotated. length (remapped ! i) = 76
          \<and> (\<forall>k<19. remapped ! i ! (4 * k) = - rotated ! i ! (4 * k + 2)
                \<and> remapped ! i ! (4 * k + 1) = rotated ! i ! (4 * k)
                \<and> remapped ! i ! (4 * k + 2) = - rotated ! i ! (4 * k + 1)
                \<and> remapped ! i ! (4 * k + 3) = rotated ! i ! (4 * k + 3)))"
proof -
  let ?P = "\<lambda>p q. length q = 76
          \<and> (\<forall>k<19. q ! (4 * k) = - p ! (4 * k + 2) \<and> q ! (4 * k + 1) = p ! (4 * k)
                \<and> q ! (4 * k + 2) = - p ! (4 * k + 1) \<and> q ! (4 * k + 3) = p ! (4 * k + 3))"
  have one: "\<exists>q. remap_pose p = Inr q \<and> ?P p q" if "p \<in> set rotated" for p
  proof -
    from that assms have "length p = 4 * 19" by (simp add: list_all_iff)
    from remap_pose_entries [OF this] show ?thesis by simp
  qed
  then have "\<exists>q. remap_pose p = Inr q" if "p \<in> set rotated" for p
    using that by blast
  with map_result_total [of rotated remap_pose] obtain out where
    out: "map_result remap_pose rotated = Inr out"
    by blast
  then have l: "length out = length rotated"
    and each: "\<And>i. i < length rotated \<Longrightarrow> remap_pose (rotated ! i) = Inr (out ! i)"
    by (simp_all add: map_result_Inr_iff)
  have "?P (rotated ! i) (out ! i)" if "i < length rotated" for i
    using one [of "rotated ! i"] each [OF that] that by auto
  with out l show ?thesis unfolding axis_remap_def by blast
qed

lemma drop_confidence_entries:
  assumes "list_all (\<lambda>p. length p = 76) remapped"
  shows "\<exists>points. drop_confidence remapped = Inr points \<and> length points = length remapped
    \<and> (\<forall>i<length remapped. length (points ! i) = 19
          \<and> (\<forall>k<19. points ! i ! k
                = [remapped ! i ! (4 * k), remapped ! i ! (4 * k + 1), remapped ! i ! (4 * k + 2)]))"
proof -
  let ?f = "\<lambda>pose. if length pose = 0 \<or> length pose mod 19 \<noteq> 0 then Inl ValueError
               else Inr (map (take 3) (reshape_rows (length pose div 19) pose))"
  let ?g = "\<lambda>pose::real list. map (take 3) (reshape_rows 4 pose)"
  have f: "?f p = Inr (?g p)" if "length p = 76" for p
    using that by simp
  have g: "length (?g p) = 19
      \<and> (\<forall>k<19. ?g p ! k = [p ! (4 * k), p ! (4 * k + 1), p ! (4 * k + 2)])"
    if "length p = 76" for p
    using that by (simp add: reshape_rows_def upt4 mult.commute del: upt_rec_numeral)
  have "\<exists>q. ?f p = Inr q" if "p \<in> set remapped" for p
    using that assms f by (simp add: list_all_iff)
  with map_result_total [of remapped ?f] obtain out where
    out: "map_result ?f remapped = Inr out"
    by blast
  then have l: "length out = length remapped"
    and each: "\<And>i. i < length remapped \<Longrightarrow> ?f (remapped ! i) = Inr (out ! i)"
    by (simp_all add: map_result_Inr_iff)
  have "out ! i = ?g (remapped ! i)" if "i < length remapped" for i
  proof -
    from that assms have "length (remapped ! i) = 76" by (simp add: list_all_length)
    from f [OF this] each [OF that] show ?thesis by simp
  qed
  moreover have "length (remapped ! i) = 76" if "i < length remapped" for i
    using that assms by (simp add: list_all_length)
  ultimately have "length (out ! i) = 19
          \<and> (\<forall>k<19. out ! i ! k
                = [remapped ! i ! (4 * k), remapped ! i ! (4 * k + 1), remapped ! i ! (4 * k + 2)])"
    if "i < length remapped" for i
    using that g [of "remapped ! i"] by metis
  with out l show ?thesis unfolding drop_confidence_def by blast
qed


text \<open>
  Claim C5. For a non-empty array of flat poses of length 76, a \<open>3 \<times> 3\<close> matrix \<open>R\<close> with
  nonzero determinant and a translation \<open>t\<close>, \<^verbatim>\<open>rotate_poses\<close> returns an array of the
  same shape in which, for each pose read as \<open>19 \<times> 4\<close>, the fourth component of every
  keypoint is unchanged and the first three are \<open>R_inv \<cdot> (point - t)\<close>, where \<open>R_inv\<close> is
  the inverse of \<open>R\<close>. Floats are read as reals, so the inverse is exact.
\<close>

theorem rotate_poses_inverse_transform:
  assumes "is_3x3 R" "det3 R \<noteq> 0" "length t = 3"
    and "poses_3d \<noteq> []" "list_all (\<lambda>p. length p = 76) poses_3d"
  shows "\<exists>R_inv out. linalg_inv R = Inr R_inv
      \<and> np_dot R R_inv 3 = identity3 \<and> np_dot R_inv R 3 = identity3
      \<and> rotate_poses poses_3d R t = Inr out \<and> length out = length poses_3d
      \<and> (\<forall>i<length poses_3d. length (out ! i) = 76
            \<and> (\<forall>k<19. out ! i ! (4 * k + 3) = poses_3d ! i ! (4 * k + 3)
                  \<and> (\<forall>r<3. out ! i ! (4 * k + r)
                        = R_inv ! r ! 0 * (poses_3d ! i ! (4 * k) - t ! 0)
                          + R_inv ! r ! 1 * (poses_3d ! i ! (4 * k + 1) - t ! 1)
                          + R_inv ! r ! 2 * (poses_3d ! i ! (4 * k + 2) - t ! 2))))"
  using assms(1,2,3,5) by (rule rotate_poses_entries)

theorem rotate_poses_inverse_transform_witness:
  "is_3x3 R_demo \<and> det3 R_demo \<noteq> 0 \<and> length t_demo = 3 \<and> [pose_demo] \<noteq> []
    \<and> list_all (\<lambda>p. length p = 76) [pose_demo]
    \<and> (\<exists>R_inv out. linalg_inv R_demo = Inr R_inv
          \<and> rotate_poses [pose_demo] R_demo t_demo = Inr out \<and> length out = 1
          \<and> out ! 0 ! 0 = 4 \<and> out ! 0 ! 1 = - 3 \<and> out ! 0 ! 2 = 5 \<and> out ! 0 ! 3 = 1 / 2)"
proof -
  have h: "is_3x3 R_demo" "det3 R_demo \<noteq> 0" "length t_demo = 3" "[pose_demo] \<noteq> []"
    "list_all (\<lambda>p. length p = 76) [pose_demo]"
    by (simp_all add: is_3x3_def det3_def R_demo_def t_demo_def pose_demo_def)
  from rotate_poses_inverse_transform [OF h] obtain R_inv out where
    inv: "linalg_inv R_demo = Inr R_inv"
    and run: "rotate_poses [pose_demo] R_demo t_demo = Inr out"
    and l: "length out = length [pose_demo]"
    by blast
  note v = rotate_demo_values [OF run]
  from l have "length out = 1" by simp
  with h inv run v show ?thesis by blast
qed

text \<open>
  Claim C6. For a non-empty array of poses, with \<open>rotated\<close> the result of
  \<^verbatim>\<open>rotate_poses\<close>, the points handed to the renderer are, for every person and each of
  the 19 keypoints, \<open>(-z, x, -y)\<close> of the rotated coordinates \<open>(x, y, z)\<close> of that
  keypoint.
\<close>

theorem coordinate_transform_axis_remap:
  assumes "is_3x3 R" "det3 R \<noteq> 0" "length t = 3"
    and "poses_3d \<noteq> []" "list_all (\<lambda>p. length p = 76) poses_3d"
  shows "\<exists>rotated points. rotate_poses poses_3d R t = Inr rotated
      \<and> coordinate_transform R t skeleton poses_3d
          = Inr (points, build_edges skeleton (length poses_3d))
      \<and> length points = length poses_3d
      \<and> (\<forall>i<length poses_3d. length (points ! i) = 19
            \<and> (\<forall>k<19. points ! i ! k
                  = [- rotated ! i ! (4 * k + 2), rotated ! i ! (4 * k),
                     - rotated ! i ! (4 * k + 1)]))"
proof -
  from rotate_poses_entries [OF assms(1,2,3,5)] obtain rotated where
    rot: "rotate_poses poses_3d R t = Inr rotated" and lr: "length rotated = length poses_3d"
    and r76: "\<forall>i<length poses_3d. length (rotated ! i) = 76"
    by blast
  then have all76: "list_all (\<lambda>p. length p = 76) rotated"
    by (simp add: list_all_length)
  from axis_remap_entries [OF all76] obtain remapped where
    rem: "axis_remap rotated = Inr remapped" and lm: "length remapped = length rotated"
    and e: "\<forall>i<length rotated. length (remapped ! i) = 76
          \<and> (\<forall>k<19. remapped ! i ! (4 * k) = - rotated ! i ! (4 * k + 2)
                \<and> remapped ! i ! (4 * k + 1) = rotated ! i ! (4 * k)
                \<and> remapped ! i ! (4 * k + 2) = - rotated ! i ! (4 * k + 1)
                \<and> remapped ! i ! (4 * k + 3) = rotated ! i ! (4 * k + 3))"
    by blast
  then have m76: "list_all (\<lambda>p. length p = 76) remapped"
    by (simp add: list_all_length)
  from drop_confidence_entries [OF m76] obtain points where
    dc: "drop_confidence remapped = Inr points" and lp: "length points = length remapped"
    and d: "\<forall>i<length remapped. length (points ! i) = 19
          \<and> (\<forall>k<19. points ! i ! k
                = [remapped ! i ! (4 * k), remapped ! i ! (4 * k + 1), remapped ! i ! (4 * k + 2)])"
    by blast
  have ct: "coordinate_transform R t skeleton poses_3d
          = Inr (points, build_edges skeleton (length poses_3d))"
    using assms(4) by (simp add: coordinate_transform_def rot rem dc lp lm lr)
  have "length (points ! i) = 19
            \<and> (\<forall>k<19. points ! i ! k
                  = [- rotated ! i ! (4 * k + 2), rotated ! i ! (4 * k),
                     - rotated ! i ! (4 * k + 1)])"
    if "i < length poses_3d" for i
    using that d e lm lr by simp
  with rot ct lp lm lr show ?thesis by auto
qed

theorem coordinate_transform_axis_remap_witness:
  "is_3x3 R_demo \<and> det3 R_demo \<noteq> 0 \<and> length t_demo = 3 \<and> [pose_demo] \<noteq> []
    \<and> list_all (\<lambda>p. length p = 76) [pose_demo]
    \<and> (\<exists>rotated points. rotate_poses [pose_demo] R_demo t_demo = Inr rotated
          \<and> coordinate_transform R_demo t_demo skeleton3 [pose_demo]
              = Inr (points, build_edges skeleton3 1)
          \<and> length points = 1 \<and> length (points ! 0) = 19
          \<and> rotated ! 0 ! 0 = 4 \<and> rotated ! 0 ! 1 = - 3 \<and> rotated ! 0 ! 2 = 5
          \<and> points ! 0 ! 0 = [- 5, 4, 3])"
proof -
  have h: "is_3x3 R_demo" "det3 R_demo \<noteq> 0" "length t_demo = 3" "[pose_demo] \<noteq> []"
    "list_all (\<lambda>p. length p = 76) [pose_demo]"
    by (simp_all add: is_3x3_def det3_def R_demo_def t_demo_def pose_demo_def)
  from coordinate_transform_axis_remap [OF h, of skeleton3] obtain rotated points where
    rot: "rotate_poses [pose_demo] R_demo t_demo = Inr rotated"
    and ct: "coordinate_transform R_demo t_demo skeleton3 [pose_demo]
              = Inr (points, build_edges skeleton3 (length [pose_demo]))"
    and lp: "length points = length [pose_demo]"
    and e: "\<forall>i<length [pose_demo]. length (points ! i) = 19
            \<and> (\<forall>k<19. points ! i ! k
                  = [- rotated ! i ! (4 * k + 2), rotated ! i ! (4 * k),
                     - rotated ! i ! (4 * k + 1)])"
    by blast
  note v = rotate_demo_values [OF rot]
  from e have l19: "length (points ! 0) = 19"
    and "\<forall>k<19. points ! 0 ! k
                  = [- rotated ! 0 ! (4 * k + 2), rotated ! 0 ! (4 * k),
                     - rotated ! 0 ! (4 * k + 1)]"
    by simp_all
  then have "points ! 0 ! 0
                  = [- rotated ! 0 ! (4 * 0 + 2), rotated ! 0 ! (4 * 0),
                     - rotated ! 0 ! (4 * 0 + 1)]"
    by (metis zero_less_numeral)
  then have p0: "points ! 0 ! 0 = [- 5, 4, 3]"
    using v by (simp add: numeral_2_eq_2)
  from ct lp have ct': "coordinate_transform R_demo t_demo skeleton3 [pose_demo]
              = Inr (points, build_edges skeleton3 1)" and lp': "length points = 1"
    by simp_all
  from h rot ct' lp' l19 v p0 show ?thesis by blast
qed


section \<open>The playback control, case by case\<close>

lemmas log_defs =
  configured_widths_def tensor_widths_def focal_lengths_def samples_def scenes_def

lemma rotate_loop_events:
  "rotate_loop poses_3d edges key ks = (r, ks', ev) \<Longrightarrow> list_all (poll_event poses_3d edges) ev"
proof (induction poses_3d edges key ks arbitrary: r ks' ev rule: rotate_loop.induct)
  case (1 poses_3d edges key ks)
  show ?case
  proof (cases "key \<noteq> p_code \<and> key \<noteq> esc_code \<and> key \<noteq> space_code")
    case False
    with "1.prems" show ?thesis by (auto simp: rotate_loop.simps)
  next
    case True
    show ?thesis
    proof (cases ks)
      case Nil
      with True "1.prems" show ?thesis by (auto simp: rotate_loop.simps)
    next
      case (Cons k rest)
      obtain r1 ks1 ev1 where rec: "rotate_loop poses_3d edges k rest = (r1, ks1, ev1)"
        by (cases "rotate_loop poses_3d edges k rest") auto
      from "1.IH" [OF True Cons rec]
      have "list_all (poll_event poses_3d edges) ev1" .
      moreover from "1.prems" True Cons rec
      have "ev = [Plot poses_3d edges, ShowCanvas, WaitKey 33 k] @ ev1"
        by (simp add: rotate_loop.simps [of _ _ key])
      ultimately show ?thesis by simp
    qed
  qed
qed

lemma playback_control_cases:
  assumes "playback_control rot poses_3d edges s = (c, s', ev)"
  obtains
    (blocked) "wait_key (delay s) (pending_keys s) = None" "c = Hang" "s' = s" "ev = []"
  | (escape) ks where "wait_key (delay s) (pending_keys s) = Some (esc_code, ks)"
      "c = Break" "s' = s\<lparr>pending_keys := ks\<rparr>" "ev = [WaitKey (delay s) esc_code]"
  | (plain) key ks d where "wait_key (delay s) (pending_keys s) = Some (key, ks)"
      "key \<noteq> esc_code"
      "d = (if key = p_code then (if delay s = 1 then 0 else 1) else delay s)"
      "\<not> (d = 0 \<and> rot)"
      "c = Continue" "s' = s\<lparr>delay := d, pending_keys := ks\<rparr>"
      "ev = [WaitKey (delay s) key]"
  | (rotate) key ks r ks' ev' where "wait_key (delay s) (pending_keys s) = Some (key, ks)"
      "key \<noteq> esc_code" "rot"
      "(if key = p_code then (if delay s = 1 then 0 else 1) else delay s) = 0"
      "rotate_loop poses_3d edges 0 ks = (r, ks', ev')"
      "ev = WaitKey (delay s) key # ev'"
      "r = None \<and> c = Hang \<and> s' = s\<lparr>delay := 0, pending_keys := ks'\<rparr>
       \<or> r = Some esc_code \<and> c = Break \<and> s' = s\<lparr>delay := 0, pending_keys := ks'\<rparr>
       \<or> (\<exists>k. r = Some k \<and> k \<noteq> esc_code) \<and> c = Continue
           \<and> s' = s\<lparr>delay := 1, pending_keys := ks'\<rparr>"
proof (cases "wait_key (delay s) (pending_keys s)")
  case None
  with assms have "c = Hang" "s' = s" "ev = []"
    by (simp_all add: playback_control_def)
  with None show ?thesis by (rule blocked)
next
  case (Some a)
  obtain key ks where a: "a = (key, ks)" by (cases a) auto
  show ?thesis
  proof (cases "key = esc_code")
    case True
    with assms Some a have "c = Break" "s' = s\<lparr>pending_keys := ks\<rparr>"
      "ev = [WaitKey (delay s) esc_code]"
      by (simp_all add: playback_control_def)
    with Some a True show ?thesis by (intro escape [of ks]) simp_all
  next
    case ne: False
    define d where "d = (if key = p_code then (if delay s = 1 then 0 else 1) else delay s)"
    show ?thesis
    proof (cases "d = 0 \<and> rot")
      case False
      with assms Some a ne d_def have "c = Continue"
        "s' = s\<lparr>delay := d, pending_keys := ks\<rparr>" "ev = [WaitKey (delay s) key]"
        by (auto simp: playback_control_def Let_def)
      with Some a ne False d_def show ?thesis by (intro plain [of key ks d]) simp_all
    next
      case True
      obtain r ks' ev' where rl: "rotate_loop poses_3d edges 0 ks = (r, ks', ev')"
        by (cases "rotate_loop poses_3d edges 0 ks") auto
      from True have d0: "d = 0" and rot: rot by simp_all
      from assms Some a ne True rl d_def
      have "ev = WaitKey (delay s) key # ev'
        \<and> (r = None \<and> c = Hang \<and> s' = s\<lparr>delay := 0, pending_keys := ks'\<rparr>
       \<or> r = Some esc_code \<and> c = Break \<and> s' = s\<lparr>delay := 0, pending_keys := ks'\<rparr>
       \<or> (\<exists>k. r = Some k \<and> k \<noteq> esc_code) \<and> c = Continue
           \<and> s' = s\<lparr>delay := 1, pending_keys := ks'\<rparr>)"
        by (cases r) (auto simp: playback_control_def Let_def split: if_splits)
      with Some a ne rot d0 d_def rl show ?thesis
        by (intro rotate [of key ks r ks' ev']) simp_all
    qed
  qed
qed

lemma playback_control_events:
  assumes "playback_control rot poses_3d edges s = (c, s', ev)"
  shows "list_all (poll_event poses_3d edges) ev"
  using assms
proof (cases rule: playback_control_cases)
  case (rotate key ks r ks' ev')
  from rotate_loop_events [OF rotate(5)] rotate(6) show ?thesis
    by simp
qed simp_all

lemma playback_control_session:
  assumes "playback_control rot poses_3d edges s = (c, s', ev)"
  shows "fx s' = fx s" "mean_time s' = mean_time s"
    "base_width_calculated s' = base_width_calculated s" "IMAGE_WIDTH s' = IMAGE_WIDTH s"
    "c = Continue \<or> c = Break \<or> c = Hang"
  using assms by (cases rule: playback_control_cases; auto)+

lemma render_and_control_cases:
  assumes "render_and_control env s frame_id poses_3d edges poses_2d = (c, s', ev)"
  obtains
    (zero) "update_mean_time (mean_time s) (tick_elapsed env frame_id) = 0"
      "c = Raise ZeroDivisionError"
      "s' = s\<lparr>mean_time := update_mean_time (mean_time s) (tick_elapsed env frame_id)\<rparr>"
      "ev = [Plot poses_3d edges, if is_video env then ShowCanvas else WriteCanvas frame_id,
             DrawPoses poses_2d, Elapsed (tick_elapsed env frame_id)]"
  | (shown) fps ev2 where
      "update_mean_time (mean_time s) (tick_elapsed env frame_id) \<noteq> 0"
      "playback_control (rotate3d env) poses_3d edges
         (s\<lparr>mean_time := update_mean_time (mean_time s) (tick_elapsed env frame_id)\<rparr>)
         = (c, s', ev2)"
      "ev = [Plot poses_3d edges, if is_video env then ShowCanvas else WriteCanvas frame_id,
             DrawPoses poses_2d, Elapsed (tick_elapsed env frame_id), PutText fps,
             if is_video env then ShowFrame else WriteFrame] @ ev2"
proof (cases "update_mean_time (mean_time s) (tick_elapsed env frame_id) = 0")
  case True
  with assms have "c = Raise ZeroDivisionError"
    "s' = s\<lparr>mean_time := update_mean_time (mean_time s) (tick_elapsed env frame_id)\<rparr>"
    "ev = [Plot poses_3d edges, if is_video env then ShowCanvas else WriteCanvas frame_id,
             DrawPoses poses_2d, Elapsed (tick_elapsed env frame_id)]"
    by (simp_all add: render_and_control_def Let_def fps_text_def)
  with True show ?thesis by (rule zero)
next
  case False
  let ?s1 = "s\<lparr>mean_time := update_mean_time (mean_time s) (tick_elapsed env frame_id)\<rparr>"
  obtain c2 s2 ev2 where pc: "playback_control (rotate3d env) poses_3d edges ?s1 = (c2, s2, ev2)"
    by (cases "playback_control (rotate3d env) poses_3d edges ?s1") auto
  define fps where "fps = real_of_int (py_int (1 / mean_time ?s1 * 10)) / 10"
  from False have fps: "fps_text (mean_time ?s1) = Inr fps"
    by (simp add: fps_text_def fps_def)
  from assms pc fps have "c = c2" "s' = s2"
    "ev = [Plot poses_3d edges, if is_video env then ShowCanvas else WriteCanvas frame_id,
             DrawPoses poses_2d, Elapsed (tick_elapsed env frame_id), PutText fps,
             if is_video env then ShowFrame else WriteFrame] @ ev2"
    by (simp_all add: render_and_control_def Let_def)
  with False pc show ?thesis by (intro shown [of ev2 fps]) simp_all
qed

lemma loop_body_cases:
  assumes "loop_body env s frame_id frame = (c, s', ev)"
  obtains
    (width_error) e where "\<not> base_width_calculated s" "base_width frame = Inl e"
      "c = Raise e" "s' = s" "ev = []"
  | (preprocess_error) e s1 ev1 where "configure_width s frame = Inr (s1, ev1)"
      "preprocess (interp env) frame = Inl e" "c = Raise e" "s' = s1" "ev = ev1"
  | (transform_error) e s1 ev1 input_scale img normalized where
      "configure_width s frame = Inr (s1, ev1)"
      "preprocess (interp env) frame = Inr (input_scale, img, normalized)"
      "coordinate_transform (extrinsics_R env) (extrinsics_t env) (SKELETON_EDGES env)
         (fst (parse_poses env (net_results env normalized) input_scale STRIDE
                 (fx (focal_length s1 frame)) (is_video env))) = Inl e"
      "c = Raise e" "s' = focal_length s1 frame"
      "ev = ev1 @ replicate (if is_video env then 1 else 5) (NetUpdate normalized)
              @ [ParsePoses input_scale STRIDE (fx (focal_length s1 frame)) (is_video env)]"
  | (rendered) s1 ev1 input_scale img normalized poses_3d edges ev3 where
      "configure_width s frame = Inr (s1, ev1)"
      "preprocess (interp env) frame = Inr (input_scale, img, normalized)"
      "coordinate_transform (extrinsics_R env) (extrinsics_t env) (SKELETON_EDGES env)
         (fst (parse_poses env (net_results env normalized) input_scale STRIDE
                 (fx (focal_length s1 frame)) (is_video env))) = Inr (poses_3d, edges)"
      "render_and_control env (focal_length s1 frame) frame_id poses_3d edges
         (snd (parse_poses env (net_results env normalized) input_scale STRIDE
                 (fx (focal_length s1 frame)) (is_video env))) = (c, s', ev3)"
      "ev = ev1 @ replicate (if is_video env then 1 else 5) (NetUpdate normalized)
              @ [ParsePoses input_scale STRIDE (fx (focal_length s1 frame)) (is_video env)]
              @ ev3"
proof (cases "configure_width s frame")
  case (Inl e)
  then have "\<not> base_width_calculated s" "base_width frame = Inl e"
    by (auto simp: configure_width_def split: if_splits sum.splits)
  moreover from assms Inl have "c = Raise e" "s' = s" "ev = []"
    by (simp_all add: loop_body_def)
  ultimately show ?thesis by (rule width_error)
next
  case (Inr a)
  obtain s1 ev1 where a: "a = (s1, ev1)" by (cases a) auto
  note cw = Inr [unfolded a]
  show ?thesis
  proof (cases "preprocess (interp env) frame")
    case (Inl e)
    with assms cw have "c = Raise e" "s' = s1" "ev = ev1"
      by (simp_all add: loop_body_def)
    with cw Inl show ?thesis by (rule preprocess_error)
  next
    case (Inr b)
    obtain input_scale img normalized where b: "b = (input_scale, img, normalized)"
      by (cases b) auto
    note pre = Inr [unfolded b]
    let ?s2 = "focal_length s1 frame"
    let ?dec = "parse_poses env (net_results env normalized) input_scale STRIDE
                 (fx ?s2) (is_video env)"
    let ?ev2 = "replicate (if is_video env then 1 else 5) (NetUpdate normalized)
              @ [ParsePoses input_scale STRIDE (fx ?s2) (is_video env)]"
    show ?thesis
    proof (cases "coordinate_transform (extrinsics_R env) (extrinsics_t env)
                    (SKELETON_EDGES env) (fst ?dec)")
      case (Inl e)
      with assms cw pre have "c = Raise e" "s' = ?s2" "ev = ev1 @ ?ev2"
        by (auto simp: loop_body_def Let_def)
      with cw pre Inl show ?thesis by (rule transform_error)
    next
      case (Inr d)
      obtain poses_3d edges where d: "d = (poses_3d, edges)" by (cases d) auto
      note ct = Inr [unfolded d]
      obtain c3 s3 ev3 where rc:
        "render_and_control env ?s2 frame_id poses_3d edges (snd ?dec) = (c3, s3, ev3)"
        by (cases "render_and_control env ?s2 frame_id poses_3d edges (snd ?dec)") auto
      with assms cw pre ct have "c = c3" "s' = s3" "ev = ev1 @ ?ev2 @ ev3"
        by (auto simp: loop_body_def Let_def)
      with cw pre ct rc show ?thesis by (intro rendered [of s1 ev1 input_scale img normalized poses_3d edges ev3]) simp_all
    qed
  qed
qed

section \<open>What an iteration logs and changes\<close>

lemma log_append:
  "configured_widths (a @ b) = configured_widths a @ configured_widths b"
  "tensor_widths (a @ b) = tensor_widths a @ tensor_widths b"
  "focal_lengths (a @ b) = focal_lengths a @ focal_lengths b"
  "samples (a @ b) = samples a @ samples b"
  "scenes (a @ b) = scenes a @ scenes b"
  by (simp_all add: log_defs)

lemma log_Cons:
  "configured_widths (e # b) = configured_width e @ configured_widths b"
  "tensor_widths (e # b) = given_width e @ tensor_widths b"
  "focal_lengths (e # b) = given_focal e @ focal_lengths b"
  "samples (e # b) = measured e @ samples b"
  "scenes (e # b) = drawn e @ scenes b"
  by (simp_all add: log_defs)

lemma log_Nil:
  "configured_widths [] = []" "tensor_widths [] = []" "focal_lengths [] = []"
  "samples [] = []" "scenes [] = []"
  by (simp_all add: log_defs)

lemma log_replicate_NetUpdate:
  "configured_widths (replicate n (NetUpdate a)) = []"
  "tensor_widths (replicate n (NetUpdate a)) = replicate n (tensor_width a)"
  "focal_lengths (replicate n (NetUpdate a)) = []"
  "samples (replicate n (NetUpdate a)) = []"
  "scenes (replicate n (NetUpdate a)) = []"
  by (induction n) (simp_all add: log_Cons log_Nil)

lemma poll_event_log:
  assumes "list_all (poll_event poses_3d edges) ev"
  shows "configured_widths ev = [] \<and> tensor_widths ev = [] \<and> focal_lengths ev = []
    \<and> samples ev = [] \<and> set (scenes ev) \<subseteq> {(poses_3d, edges)}
    \<and> (\<forall>n. Fetch n \<notin> set ev)"
  using assms
proof (induction ev)
  case Nil
  then show ?case by (simp add: log_Nil)
next
  case (Cons e ev)
  then show ?case by (cases e) (auto simp: log_Cons)
qed

lemma shape1_map_map: "shape1 (map (map f) a) = shape1 a"
  by (cases a) (simp_all add: shape1_def)

lemma tensor_width_normalized: "tensor_width (normalized_img img) = shape1 img"
  by (simp add: tensor_width_def normalized_img_def expand_dims0_def transpose_201_def
      shape1_map_map)

lemma preprocess_processed_width:
  assumes "preprocess ip frame = Inr (s, img, tensor)"
  shows "tensor_width tensor = processed_width frame"
  using preprocess_shape(2) [OF assms] preprocess_InrD(2,4) [OF assms]
  by (simp add: tensor_width_normalized processed_width_def Let_def)

lemma configure_width_cases:
  assumes "configure_width s frame = Inr (s1, ev1)"
  obtains (already) "base_width_calculated s" "s1 = s" "ev1 = []"
  | (first) w where "\<not> base_width_calculated s" "base_width frame = Inr w"
      "s1 = s\<lparr>IMAGE_WIDTH := Some w, base_width_calculated := True\<rparr>"
      "ev1 = [SetInputShape 1 3 IMAGE_HEIGHT w]"
  using assms by (auto simp: configure_width_def split: if_splits sum.splits)

lemma configure_width_log:
  assumes "configure_width s frame = Inr (s1, ev1)"
  shows "fx s1 = fx s" "mean_time s1 = mean_time s"
    "tensor_widths ev1 = []" "focal_lengths ev1 = []" "samples ev1 = []" "scenes ev1 = []"
    "base_width_calculated s1"
  using assms by (cases rule: configure_width_cases; simp add: log_Cons log_Nil)+

lemma focal_length_fields:
  "fx (focal_length s frame) = (if fx s < 0 then 0.8 * real (shape1 frame) else fx s)"
  "mean_time (focal_length s frame) = mean_time s"
  "base_width_calculated (focal_length s frame) = base_width_calculated s"
  "IMAGE_WIDTH (focal_length s frame) = IMAGE_WIDTH s"
  "delay (focal_length s frame) = delay s"
  "pending_keys (focal_length s frame) = pending_keys s"
  by (simp_all add: focal_length_def)

lemma render_and_control_log:
  assumes "render_and_control env s frame_id poses_3d edges poses_2d = (c, s', ev)"
  shows "fx s' = fx s
    \<and> base_width_calculated s' = base_width_calculated s
    \<and> IMAGE_WIDTH s' = IMAGE_WIDTH s
    \<and> mean_time s' = update_mean_time (mean_time s) (tick_elapsed env frame_id)
    \<and> configured_widths ev = [] \<and> tensor_widths ev = [] \<and> focal_lengths ev = []
    \<and> samples ev = [tick_elapsed env frame_id]
    \<and> set (scenes ev) = {(poses_3d, edges)}
    \<and> ((\<exists>e. c = Raise e) \<longleftrightarrow> mean_time s' = 0)"
  using assms
proof (cases rule: render_and_control_cases)
  case zero
  then show ?thesis by (simp add: log_Cons log_Nil)
next
  case (shown fps ev2)
  note ses = playback_control_session [OF shown(2)]
  note evs = poll_event_log [OF playback_control_events [OF shown(2)]]
  have "(\<exists>e. c = Raise e) \<longleftrightarrow> mean_time s' = 0"
    using ses shown(1) by auto
  moreover have "set (scenes ev) = {(poses_3d, edges)}"
    using evs shown(3) by (auto simp: log_Cons log_Nil log_append)
  ultimately show ?thesis
    using ses evs shown(3) by (simp add: log_Cons log_Nil log_append)
qed

lemma loop_body_log:
  assumes "loop_body env s frame_id frame = (c, s', ev)"
  shows "fx s' = fx s \<or> fx s < 0 \<and> fx s' = 0.8 * real (shape1 frame)"
    and "set (focal_lengths ev) \<subseteq> {if fx s < 0 then 0.8 * real (shape1 frame) else fx s}"
    and "focal_lengths ev \<noteq> [] \<Longrightarrow>
           fx s' = (if fx s < 0 then 0.8 * real (shape1 frame) else fx s)"
    and "set (tensor_widths ev) \<subseteq> {processed_width frame}"
    and "samples ev = [] \<and> mean_time s' = mean_time s
         \<or> samples ev = [tick_elapsed env frame_id]
           \<and> mean_time s' = update_mean_time (mean_time s) (tick_elapsed env frame_id)"
    and "c = Continue \<Longrightarrow> mean_time s' \<noteq> 0"
    and "c = Continue \<Longrightarrow> base_width_calculated s'"
proof -
  have "(fx s' = fx s \<or> fx s < 0 \<and> fx s' = 0.8 * real (shape1 frame))
    \<and> set (focal_lengths ev) \<subseteq> {if fx s < 0 then 0.8 * real (shape1 frame) else fx s}
    \<and> (focal_lengths ev \<noteq> [] \<longrightarrow>
           fx s' = (if fx s < 0 then 0.8 * real (shape1 frame) else fx s))
    \<and> set (tensor_widths ev) \<subseteq> {processed_width frame}
    \<and> (samples ev = [] \<and> mean_time s' = mean_time s
         \<or> samples ev = [tick_elapsed env frame_id]
           \<and> mean_time s' = update_mean_time (mean_time s) (tick_elapsed env frame_id))
    \<and> (c = Continue \<longrightarrow> mean_time s' \<noteq> 0)
    \<and> (c = Continue \<longrightarrow> base_width_calculated s')"
    using assms
  proof (cases rule: loop_body_cases)
    case (width_error e)
    then show ?thesis by (simp add: log_Nil)
  next
    case (preprocess_error e s1 ev1)
    with configure_width_log [OF preprocess_error(1)] show ?thesis by simp
  next
    case (transform_error e s1 ev1 input_scale img normalized)
    note cw = configure_width_log [OF transform_error(1)]
    note pw = preprocess_processed_width [OF transform_error(2)]
    from transform_error(4,5,6) cw pw show ?thesis
      by (auto simp: log_append log_Cons log_Nil log_replicate_NetUpdate focal_length_fields)
  next
    case (rendered s1 ev1 input_scale img normalized poses_3d edges ev3)
    note cw = configure_width_log [OF rendered(1)]
    note pw = preprocess_processed_width [OF rendered(2)]
    note rc = render_and_control_log [OF rendered(4)]
    from rendered(5) cw pw rc show ?thesis
      by (auto simp: log_append log_Cons log_Nil log_replicate_NetUpdate focal_length_fields)
  qed
  then show "fx s' = fx s \<or> fx s < 0 \<and> fx s' = 0.8 * real (shape1 frame)"
    and "set (focal_lengths ev) \<subseteq> {if fx s < 0 then 0.8 * real (shape1 frame) else fx s}"
    and "focal_lengths ev \<noteq> [] \<Longrightarrow>
           fx s' = (if fx s < 0 then 0.8 * real (shape1 frame) else fx s)"
    and "set (tensor_widths ev) \<subseteq> {processed_width frame}"
    and "samples ev = [] \<and> mean_time s' = mean_time s
         \<or> samples ev = [tick_elapsed env frame_id]
           \<and> mean_time s' = update_mean_time (mean_time s) (tick_elapsed env frame_id)"
    and "c = Continue \<Longrightarrow> mean_time s' \<noteq> 0"
    and "c = Continue \<Longrightarrow> base_width_calculated s'"
    by blast+
qed

lemma loop_body_reaches_decoder:
  assumes "loop_body env s frame_id frame = (c, s', ev)" "\<forall>e. c \<noteq> Raise e"
  shows "focal_lengths ev \<noteq> []"
  using assms
  by (cases rule: loop_body_cases) (auto simp: log_append log_Cons)

lemma loop_body_tensors:
  assumes "loop_body env s frame_id frame = (c, s', ev)"
  shows "focal_lengths ev = [] \<and> tensor_widths ev = []
       \<or> length (focal_lengths ev) = 1
         \<and> tensor_widths ev
             = replicate (if is_video env then 1 else 5) (processed_width frame)"
  using assms
proof (cases rule: loop_body_cases)
  case (width_error e)
  then show ?thesis by (simp add: log_Nil)
next
  case (preprocess_error e s1 ev1)
  with configure_width_log [OF preprocess_error(1)] show ?thesis by simp
next
  case (transform_error e s1 ev1 input_scale img normalized)
  note cw = configure_width_log [OF transform_error(1)]
  note pw = preprocess_processed_width [OF transform_error(2)]
  from transform_error(6) cw pw show ?thesis
    by (simp add: log_append log_Cons log_Nil log_replicate_NetUpdate)
next
  case (rendered s1 ev1 input_scale img normalized poses_3d edges ev3)
  note cw = configure_width_log [OF rendered(1)]
  note pw = preprocess_processed_width [OF rendered(2)]
  note rc = render_and_control_log [OF rendered(4)]
  from rendered(5) cw pw rc show ?thesis
    by (simp add: log_append log_Cons log_Nil log_replicate_NetUpdate)
qed

lemma loop_body_width:
  assumes "loop_body env s frame_id frame = (c, s', ev)"
  shows "base_width_calculated s \<Longrightarrow>
           configured_widths ev = [] \<and> IMAGE_WIDTH s' = IMAGE_WIDTH s
           \<and> base_width_calculated s'"
    and "\<not> base_width_calculated s \<Longrightarrow> base_width frame = Inr w \<Longrightarrow>
           configured_widths ev = [w] \<and> IMAGE_WIDTH s' = Some w \<and> base_width_calculated s'"
proof -
  have "(base_width_calculated s \<longrightarrow>
           configured_widths ev = [] \<and> IMAGE_WIDTH s' = IMAGE_WIDTH s
           \<and> base_width_calculated s')
      \<and> (\<not> base_width_calculated s \<longrightarrow> base_width frame = Inr w \<longrightarrow>
           configured_widths ev = [w] \<and> IMAGE_WIDTH s' = Some w \<and> base_width_calculated s')"
    using assms
  proof (cases rule: loop_body_cases)
    case (width_error e)
    then show ?thesis by simp
  next
    case (preprocess_error e s1 ev1)
    from preprocess_error(1) show ?thesis
      by (cases rule: configure_width_cases)
         (use preprocess_error in \<open>auto simp: log_Cons log_Nil\<close>)
  next
    case (transform_error e s1 ev1 input_scale img normalized)
    from transform_error(1) show ?thesis
      by (cases rule: configure_width_cases)
         (use transform_error in \<open>auto simp: log_append log_Cons log_Nil
            log_replicate_NetUpdate focal_length_fields\<close>)
  next
    case (rendered s1 ev1 input_scale img normalized poses_3d edges ev3)
    note rc = render_and_control_log [OF rendered(4)]
    from rendered(1) show ?thesis
      by (cases rule: configure_width_cases)
         (use rendered(5) rc in \<open>auto simp: log_append log_Cons log_Nil
            log_replicate_NetUpdate focal_length_fields\<close>)
  qed
  then show "base_width_calculated s \<Longrightarrow>
           configured_widths ev = [] \<and> IMAGE_WIDTH s' = IMAGE_WIDTH s
           \<and> base_width_calculated s'"
    and "\<not> base_width_calculated s \<Longrightarrow> base_width frame = Inr w \<Longrightarrow>
           configured_widths ev = [w] \<and> IMAGE_WIDTH s' = Some w \<and> base_width_calculated s'"
    by blast+
qed

lemma poll_event_members:
  assumes "list_all (poll_event poses_3d edges) ev"
  shows "NetUpdate a \<notin> set ev" "ParsePoses sc st f v \<notin> set ev"
  using assms by (auto simp: list_all_iff)

lemma update_mean_time_pos:
  assumes "0 < c" "0 \<le> m"
  shows "0 < update_mean_time m c"
  using assms by (auto simp: update_mean_time_def intro: add_nonneg_pos)

lemma configure_width_members:
  assumes "configure_width s frame = Inr (s1, ev1)"
  shows "NetUpdate a \<notin> set ev1" "ParsePoses sc st f v \<notin> set ev1"
    "mean_time s1 = mean_time s"
  using assms by (cases rule: configure_width_cases; simp)+

section \<open>Invariants of the main loop\<close>

lemma main_loop_Some:
  assumes "main_loop env s frame_id (Some frame # rest) = (out, s', ev)"
  obtains (stop) c ev1 where "loop_body env s frame_id frame = (c, s', ev1)"
      "c \<noteq> Continue" "ev = Fetch frame_id # ev1"
      "out = (case c of Break \<Rightarrow> Finished | Raise e \<Rightarrow> Raised e | _ \<Rightarrow> Hung)"
  | (go) s1 ev1 ev2 where "loop_body env s frame_id frame = (Continue, s1, ev1)"
      "main_loop env s1 (Suc frame_id) rest = (out, s', ev2)"
      "ev = Fetch frame_id # ev1 @ ev2"
proof -
  obtain c s1 ev1 where b: "loop_body env s frame_id frame = (c, s1, ev1)"
    by (cases "loop_body env s frame_id frame") auto
  show thesis
  proof (cases c)
    case Continue
    obtain out2 s2 ev2 where r: "main_loop env s1 (Suc frame_id) rest = (out2, s2, ev2)"
      by (cases "main_loop env s1 (Suc frame_id) rest") auto
    with assms b Continue have "out = out2" "s' = s2" "ev = Fetch frame_id # ev1 @ ev2"
      by simp_all
    with b Continue r show ?thesis by (intro go [of s1 ev1 ev2]) simp_all
  next
    case Break
    with assms b show ?thesis by (intro stop [of c ev1]) auto
  next
    case (Raise e)
    with assms b show ?thesis by (intro stop [of c ev1]) auto
  next
    case Hang
    with assms b show ?thesis by (intro stop [of c ev1]) auto
  qed
qed

lemma main_loop_focal:
  assumes "main_loop env s frame_id frames = (out, s', ev)" "0 \<le> fx s"
  shows "fx s' = fx s \<and> set (focal_lengths ev) \<subseteq> {fx s}"
  using assms
proof (induction frames arbitrary: s frame_id out s' ev)
  case Nil
  then show ?case by (simp add: log_Nil)
next
  case (Cons fo frames)
  show ?case
  proof (cases fo)
    case None
    with Cons.prems show ?thesis by (auto simp: log_Cons log_Nil)
  next
    case (Some frame)
    from Cons.prems(1) [unfolded Some] show ?thesis
    proof (cases rule: main_loop_Some)
      case (stop c ev1)
      from loop_body_log(1,2) [OF stop(1)] Cons.prems(2) stop(3) show ?thesis
        by (auto simp: log_Cons)
    next
      case (go s1 ev1 ev2)
      from loop_body_log(1,2) [OF go(1)] Cons.prems(2)
      have a: "fx s1 = fx s" "set (focal_lengths ev1) \<subseteq> {fx s}" by auto
      with Cons.IH [OF go(2)] Cons.prems(2) go(3) show ?thesis
        by (auto simp: log_Cons log_append)
    qed
  qed
qed

lemma main_loop_configured:
  assumes "main_loop env s frame_id frames = (out, s', ev)" "base_width_calculated s"
  shows "configured_widths ev = [] \<and> IMAGE_WIDTH s' = IMAGE_WIDTH s"
  using assms
proof (induction frames arbitrary: s frame_id out s' ev)
  case Nil
  then show ?case by (simp add: log_Nil)
next
  case (Cons fo frames)
  show ?case
  proof (cases fo)
    case None
    with Cons.prems show ?thesis by (auto simp: log_Cons log_Nil)
  next
    case (Some frame)
    from Cons.prems(1) [unfolded Some] show ?thesis
    proof (cases rule: main_loop_Some)
      case (stop c ev1)
      from loop_body_width(1) [OF stop(1) Cons.prems(2)] stop(3) show ?thesis
        by (simp add: log_Cons)
    next
      case (go s1 ev1 ev2)
      from loop_body_width(1) [OF go(1) Cons.prems(2)]
      have a: "configured_widths ev1 = []" "IMAGE_WIDTH s1 = IMAGE_WIDTH s"
        "base_width_calculated s1" by simp_all
      with Cons.IH [OF go(2) a(3)] go(3) show ?thesis
        by (simp add: log_Cons log_append)
    qed
  qed
qed

lemma main_loop_tensors:
  assumes "main_loop env s frame_id frames = (out, s', ev)"
  shows "\<exists>fs more. frames = map Some fs @ more
           \<and> length fs = length (focal_lengths ev)
           \<and> tensor_widths ev
               = concat (map (\<lambda>f. replicate (if is_video env then 1 else 5)
                                        (processed_width f)) fs)"
  using assms
proof (induction frames arbitrary: s frame_id out s' ev)
  case Nil
  then have "ev = []" by simp
  then show ?case by (intro exI [of _ "[]"]) (simp add: log_Nil)
next
  case (Cons fo frames)
  let ?k = "if is_video env then 1 else 5 :: nat"
  show ?case
  proof (cases fo)
    case None
    with Cons.prems have "ev = [Fetch frame_id]" by simp
    then show ?thesis
      by (intro exI [of _ "[]"] exI [of _ "fo # frames"]) (simp add: log_Cons log_Nil)
  next
    case (Some frame)
    from Cons.prems(1) [unfolded Some] show ?thesis
    proof (cases rule: main_loop_Some)
      case (stop c ev1)
      from loop_body_tensors [OF stop(1)] show ?thesis
      proof (elim disjE conjE)
        assume "focal_lengths ev1 = []" "tensor_widths ev1 = []"
        with stop(3) show ?thesis
          by (intro exI [of _ "[]"] exI [of _ "fo # frames"]) (simp add: log_Cons)
      next
        assume "length (focal_lengths ev1) = 1"
          "tensor_widths ev1 = replicate ?k (processed_width frame)"
        with stop(3) Some show ?thesis
          by (intro exI [of _ "[frame]"] exI [of _ frames]) (simp add: log_Cons)
      qed
    next
      case (go s1 ev1 ev2)
      have "focal_lengths ev1 \<noteq> []"
        by (rule loop_body_reaches_decoder [OF go(1)]) simp
      with loop_body_tensors [OF go(1)] have a: "length (focal_lengths ev1) = 1"
        "tensor_widths ev1 = replicate ?k (processed_width frame)"
        by auto
      from Cons.IH [OF go(2)] obtain fs more where
        b: "frames = map Some fs @ more" "length fs = length (focal_lengths ev2)"
        "tensor_widths ev2 = concat (map (\<lambda>f. replicate ?k (processed_width f)) fs)"
        by blast
      from a b go(3) Some show ?thesis
        by (intro exI [of _ "frame # fs"] exI [of _ more]) (simp add: log_Cons log_append)
    qed
  qed
qed

lemma spec_ema_Cons:
  "spec_ema (c # cs) = (if cs = [] then c else 0.95 * spec_ema cs + 0.05 * c)"
  by (cases cs) simp_all

lemma main_loop_ema:
  assumes "main_loop env s frame_id frames = (out, s', ev)"
    and "mean_time s = spec_ema past" "past \<noteq> [] \<longrightarrow> mean_time s \<noteq> 0"
  shows "mean_time s' = spec_ema (rev (samples ev) @ past)"
  using assms
proof (induction frames arbitrary: s frame_id out s' ev past)
  case Nil
  then show ?case by (simp add: log_Nil)
next
  case (Cons fo frames)
  show ?case
  proof (cases fo)
    case None
    with Cons.prems show ?thesis by (auto simp: log_Cons log_Nil)
  next
    case (Some frame)
    let ?c = "tick_elapsed env frame_id"
    have upd: "update_mean_time (mean_time s) ?c = spec_ema (?c # past)"
      using Cons.prems(2,3) by (cases past) (auto simp: update_mean_time_def spec_ema_Cons)
    from Cons.prems(1) [unfolded Some] show ?thesis
    proof (cases rule: main_loop_Some)
      case (stop c ev1)
      from loop_body_log(5) [OF stop(1)] stop(3) Cons.prems(2) upd show ?thesis
        by (auto simp: log_Cons)
    next
      case (go s1 ev1 ev2)
      from loop_body_log(6) [OF go(1)] have nz: "mean_time s1 \<noteq> 0" by simp
      from loop_body_log(5) [OF go(1)] show ?thesis
      proof (elim disjE conjE)
        assume a: "samples ev1 = []" "mean_time s1 = mean_time s"
        with nz Cons.prems(2,3) have "mean_time s1 = spec_ema past" "past \<noteq> [] \<longrightarrow> mean_time s1 \<noteq> 0"
          by simp_all
        from Cons.IH [OF go(2) this] a go(3) show ?thesis
          by (simp add: log_Cons log_append)
      next
        assume a: "samples ev1 = [?c]" "mean_time s1 = update_mean_time (mean_time s) ?c"
        with upd nz have "mean_time s1 = spec_ema (?c # past)"
          "?c # past \<noteq> [] \<longrightarrow> mean_time s1 \<noteq> 0"
          by simp_all
        from Cons.IH [OF go(2) this] a go(3) show ?thesis
          by (simp add: log_Cons log_append)
      qed
    qed
  qed
qed

section \<open>A concrete run of two frames\<close>

lemma demo_frames:
  "shape0 frame_448x256 = 256" "shape1 frame_448x256 = 448"
  "shape0 frame_256x256 = 256" "shape1 frame_256x256 = 256"
  by (simp_all add: frame_448x256_def frame_256x256_def shape0_def shape1_replicate)

lemma demo_preprocess:
  obtains img_a tensor_a img_b tensor_b where
    "preprocess interp_corner frame_448x256 = Inr (1, img_a, tensor_a)"
    "tensor_width tensor_a = 448"
    "preprocess interp_corner frame_256x256 = Inr (1, img_b, tensor_b)"
    "tensor_width tensor_b = 256"
proof -
  have ha: "0 < shape0 frame_448x256" and hb: "0 < shape0 frame_256x256"
    by (simp_all add: demo_frames)
  have wa: "0 < cv_round (real (shape1 frame_448x256)
                            * (real IMAGE_HEIGHT / real (shape0 frame_448x256)))"
    and wb: "0 < cv_round (real (shape1 frame_256x256)
                            * (real IMAGE_HEIGHT / real (shape0 frame_256x256)))"
    by (simp_all add: demo_frames IMAGE_HEIGHT_def cv_round_def)
  from preprocess_succeeds [OF ha wa, of interp_corner] obtain img_a tensor_a where
    a: "preprocess interp_corner frame_448x256 = Inr (1, img_a, tensor_a)"
    by (auto simp: demo_frames IMAGE_HEIGHT_def)
  from preprocess_succeeds [OF hb wb, of interp_corner] obtain img_b tensor_b where
    b: "preprocess interp_corner frame_256x256 = Inr (1, img_b, tensor_b)"
    by (auto simp: demo_frames IMAGE_HEIGHT_def)
  have "tensor_width tensor_a = 448"
    using preprocess_processed_width [OF a]
    by (simp add: processed_width_def demo_frames IMAGE_HEIGHT_def STRIDE_def cv_round_def)
  moreover have "tensor_width tensor_b = 256"
    using preprocess_processed_width [OF b]
    by (simp add: processed_width_def demo_frames IMAGE_HEIGHT_def STRIDE_def cv_round_def)
  ultimately show thesis using a b that by blast
qed

text \<open>
  The widths of lines 133 and 134 for the two frames, and for a square frame of 392
  pixels, where the product of line 133 is \<open>255.99999999999997\<close> in binary64 and the
  width comes out as 248, while the exact quotient gives 256 and the tensor made from
  the frame is 256 wide.
\<close>

lemma base_width_demo:
  "base_width frame_448x256 = Inr 448" "base_width frame_256x256 = Inr 256"
  unfolding base_width_def scaled_width_def demo_frames by code_simp+

lemma frame_392x392_shape: "shape0 frame_392x392 = 392" "shape1 frame_392x392 = 392"
  by (simp_all add: frame_392x392_def shape0_def shape1_replicate)

lemma scaled_width_392x392:
  "scaled_width frame_392x392 = 9007199254740991 / 35184372088832"
  "scaled_width frame_392x392 < 256"
  unfolding scaled_width_def frame_392x392_shape by code_simp+

lemma base_width_392x392:
  "base_width frame_392x392 = Inr 248"
  "\<lfloor>real (shape1 frame_392x392) * (real IMAGE_HEIGHT / real (shape0 frame_392x392))
     / real STRIDE\<rfloor> * int STRIDE = 256"
  "processed_width frame_392x392 = 256"
  unfolding base_width_def scaled_width_def processed_width_def frame_392x392_shape
  by code_simp+

lemma preprocess_392x392:
  obtains img tensor where
    "preprocess interp_corner frame_392x392 = Inr (256 / 392, img, tensor)"
    "tensor_width tensor = 256"
proof -
  have h: "0 < shape0 frame_392x392" by (simp add: frame_392x392_shape)
  have w: "0 < cv_round (real (shape1 frame_392x392)
                            * (real IMAGE_HEIGHT / real (shape0 frame_392x392)))"
    by (simp add: frame_392x392_shape IMAGE_HEIGHT_def cv_round_def)
  from preprocess_succeeds [OF h w, of interp_corner] obtain img tensor where
    a: "preprocess interp_corner frame_392x392 = Inr (256 / 392, img, tensor)"
    by (auto simp: frame_392x392_shape IMAGE_HEIGHT_def)
  have "tensor_width tensor = 256"
    using preprocess_processed_width [OF a] by (simp add: base_width_392x392(3))
  with a show thesis by (rule that)
qed

lemmas run_defs =
  main_def initial_session_def loop_body_def configure_width_def base_width_demo
  focal_length_def coordinate_transform_def render_and_control_def update_mean_time_def
  fps_text_def playback_control_def wait_key_def env_demo_def py_int_def
  IMAGE_HEIGHT_def STRIDE_def esc_code_def p_code_def space_code_def Let_def

lemma demo_run_two_frames:
  obtains s' tensor_a tensor_b where
    "main (env_demo True False) [] [Some frame_448x256, Some frame_256x256]
       = (Finished, s',
          [Fetch 0, SetInputShape 1 3 256 448, NetUpdate tensor_a,
           ParsePoses 1 8 (0.8 * 448) True, Plot [] [], ShowCanvas, DrawPoses [],
           Elapsed (1 / 25), PutText 25, ShowFrame, WaitKey 1 (- 1),
           Fetch 1, NetUpdate tensor_b,
           ParsePoses 1 8 (0.8 * 448) True, Plot [] [], ShowCanvas, DrawPoses [],
           Elapsed (1 / 50), PutText (256 / 10), ShowFrame, WaitKey 1 (- 1)])"
    "tensor_width tensor_a = 448" "tensor_width tensor_b = 256"
    "fx s' = 0.8 * 448" "mean_time s' = 39 / 1000" "IMAGE_WIDTH s' = Some 448"
proof -
  from demo_preprocess obtain img_a tensor_a img_b tensor_b where
    p: "preprocess interp_corner frame_448x256 = Inr (1, img_a, tensor_a)"
    "tensor_width tensor_a = 448"
    "preprocess interp_corner frame_256x256 = Inr (1, img_b, tensor_b)"
    "tensor_width tensor_b = 256"
    by blast
  define s' where "s' = fst (snd (main (env_demo True False) [] [Some frame_448x256, Some frame_256x256]))"
  have "main (env_demo True False) [] [Some frame_448x256, Some frame_256x256]
       = (Finished, s',
          [Fetch 0, SetInputShape 1 3 256 448, NetUpdate tensor_a,
           ParsePoses 1 8 (0.8 * 448) True, Plot [] [], ShowCanvas, DrawPoses [],
           Elapsed (1 / 25), PutText 25, ShowFrame, WaitKey 1 (- 1),
           Fetch 1, NetUpdate tensor_b,
           ParsePoses 1 8 (0.8 * 448) True, Plot [] [], ShowCanvas, DrawPoses [],
           Elapsed (1 / 50), PutText (256 / 10), ShowFrame, WaitKey 1 (- 1)])"
    unfolding s'_def
    by (simp add: run_defs p demo_frames)
  moreover have "fx s' = 0.8 * 448" "mean_time s' = 39 / 1000" "IMAGE_WIDTH s' = Some 448"
    unfolding s'_def by (simp_all add: run_defs p demo_frames)
  ultimately show thesis using p(2,4) that by blast
qed

section \<open>The free-rotate poll\<close>

lemma rotate_loop_until:
  assumes "list_all unknown_key pre" "\<not> unknown_key k" "unknown_key key"
  shows "rotate_loop poses_3d edges key (pre @ k # post)
           = (Some k, post, concat (map (poll_round poses_3d edges) (pre @ [k])))"
  using assms
proof (induction pre arbitrary: key)
  case Nil
  then show ?case
    by (auto simp: rotate_loop.simps [of _ _ key] rotate_loop.simps [of _ _ k]
        unknown_key_def poll_round_def)
next
  case (Cons a pre)
  from Cons.prems have a: "unknown_key a" "list_all unknown_key pre" by simp_all
  from Cons.IH [OF a(2) Cons.prems(2) a(1)] Cons.prems(3) show ?case
    by (simp add: rotate_loop.simps [of _ _ key] unknown_key_def poll_round_def)
qed

lemma no_fetch_in_poll:
  "Fetch n \<notin> set (concat (map (poll_round poses_3d edges) ks))"
  by (induction ks) (simp_all add: poll_round_def)


section \<open>Claims about the main loop\<close>

text \<open>
  Claim C10. In a run whose first frame is \<open>frame\<close>, every call of the decoder is given
  the focal length \<open>0.8 * width of frame\<close>, and that is the value of \<^verbatim>\<open>fx\<close> at the end
  of the run once the decoder has been called: it is set on the first frame and never
  again, whatever the widths of the later frames.
\<close>

theorem focal_length_from_first_frame:
  assumes "main env ks (Some frame # rest) = (out, s', ev)"
  shows "(\<forall>f \<in> set (focal_lengths ev). f = 0.8 * real (shape1 frame))
       \<and> (focal_lengths ev \<noteq> [] \<longrightarrow> fx s' = 0.8 * real (shape1 frame))"
proof -
  let ?s = "initial_session ks"
  have neg: "fx ?s < 0" by (simp add: initial_session_def)
  from assms have "main_loop env ?s 0 (Some frame # rest) = (out, s', ev)"
    by (simp add: main_def)
  then show ?thesis
  proof (cases rule: main_loop_Some)
    case (stop c ev1)
    from loop_body_log(2,3) [OF stop(1)] neg stop(3) show ?thesis
      by (auto simp: log_Cons)
  next
    case (go s1 ev1 ev2)
    have "focal_lengths ev1 \<noteq> []"
      by (rule loop_body_reaches_decoder [OF go(1)]) simp
    with loop_body_log(2,3) [OF go(1)] neg
    have a: "fx s1 = 0.8 * real (shape1 frame)"
      "set (focal_lengths ev1) \<subseteq> {0.8 * real (shape1 frame)}"
      by simp_all
    then have "0 \<le> fx s1" by simp
    from main_loop_focal [OF go(2) this] a go(3) show ?thesis
      by (auto simp: log_Cons log_append)
  qed
qed

theorem focal_length_from_first_frame_witness:
  "\<exists>out s' ev.
      main (env_demo True False) [] [Some frame_448x256, Some frame_256x256] = (out, s', ev)
      \<and> shape1 frame_448x256 = 448 \<and> shape1 frame_256x256 = 256
      \<and> focal_lengths ev = [0.8 * 448, 0.8 * 448]
      \<and> fx s' = 0.8 * real (shape1 frame_448x256)"
proof -
  from demo_run_two_frames obtain s' tensor_a tensor_b where
    run: "main (env_demo True False) [] [Some frame_448x256, Some frame_256x256]
       = (Finished, s',
          [Fetch 0, SetInputShape 1 3 256 448, NetUpdate tensor_a,
           ParsePoses 1 8 (0.8 * 448) True, Plot [] [], ShowCanvas, DrawPoses [],
           Elapsed (1 / 25), PutText 25, ShowFrame, WaitKey 1 (- 1),
           Fetch 1, NetUpdate tensor_b,
           ParsePoses 1 8 (0.8 * 448) True, Plot [] [], ShowCanvas, DrawPoses [],
           Elapsed (1 / 50), PutText (256 / 10), ShowFrame, WaitKey 1 (- 1)])"
    by blast
  let ?ev = "[Fetch 0, SetInputShape 1 3 256 448, NetUpdate tensor_a,
           ParsePoses 1 8 (0.8 * 448) True, Plot [] [], ShowCanvas, DrawPoses [],
           Elapsed (1 / 25), PutText 25, ShowFrame, WaitKey 1 (- 1),
           Fetch 1, NetUpdate tensor_b,
           ParsePoses 1 8 (0.8 * 448) True, Plot [] [], ShowCanvas, DrawPoses [],
           Elapsed (1 / 50), PutText (256 / 10), ShowFrame, WaitKey 1 (- 1)]"
  have f: "focal_lengths ?ev = [0.8 * 448, 0.8 * 448]"
    by (simp add: log_Cons log_Nil)
  from focal_length_from_first_frame [OF run] f
  have "fx s' = 0.8 * real (shape1 frame_448x256)" by simp
  with run f demo_frames(2,4) show ?thesis by blast
qed


text \<open>
  Claim C2 says that every later frame's tensor reuses the width fixed on the first
  frame. It does not: with a first frame 448 wide and a second 256 wide, both 256 high,
  the engine is configured once with 448 and is then given tensors of width 448 and 256.
\<close>

theorem tensor_width_follows_each_frame:
  "configured_widths
     (snd (snd (main (env_demo True False) [] [Some frame_448x256, Some frame_256x256])))
     = [448]
   \<and> tensor_widths
     (snd (snd (main (env_demo True False) [] [Some frame_448x256, Some frame_256x256])))
     = [448, 256]"
proof -
  from demo_run_two_frames obtain s' tensor_a tensor_b where
    run: "main (env_demo True False) [] [Some frame_448x256, Some frame_256x256]
       = (Finished, s',
          [Fetch 0, SetInputShape 1 3 256 448, NetUpdate tensor_a,
           ParsePoses 1 8 (0.8 * 448) True, Plot [] [], ShowCanvas, DrawPoses [],
           Elapsed (1 / 25), PutText 25, ShowFrame, WaitKey 1 (- 1),
           Fetch 1, NetUpdate tensor_b,
           ParsePoses 1 8 (0.8 * 448) True, Plot [] [], ShowCanvas, DrawPoses [],
           Elapsed (1 / 50), PutText (256 / 10), ShowFrame, WaitKey 1 (- 1)])"
    and w: "tensor_width tensor_a = 448" "tensor_width tensor_b = 256"
    by blast
  show ?thesis
    unfolding run by (simp add: log_Cons log_Nil w)
qed

text \<open>
  Claim C2, amended. In a run whose first frame has a positive height, the engine's
  input shape is configured exactly once, with the width that lines 133 and 134 compute
  from the first frame in binary64 (the scaled width divided by the stride, truncated,
  times the stride), and \<^verbatim>\<open>IMAGE_WIDTH\<close> keeps that value to the end of the run. The
  tensors follow the frames in order: the frames that reach the engine are the first
  frames of the run, one call of the decoder each, and each of them is given to the
  engine, once in video mode and five times in image mode, as a tensor with the width
  of that frame's own resized and cropped image, not the configured width.
\<close>

theorem input_width_configured_once:
  assumes "main env ks (Some frame # rest) = (out, s', ev)" "0 < shape0 frame"
  shows "configured_widths ev
           = [py_int (float64 (scaled_width frame / real STRIDE)) * int STRIDE]
       \<and> IMAGE_WIDTH s'
           = Some (py_int (float64 (scaled_width frame / real STRIDE)) * int STRIDE)
       \<and> (\<exists>fs more. Some frame # rest = map Some fs @ more
              \<and> length fs = length (focal_lengths ev)
              \<and> tensor_widths ev
                  = concat (map (\<lambda>f. replicate (if is_video env then 1 else 5)
                                           (processed_width f)) fs))"
proof -
  let ?s = "initial_session ks"
  let ?w = "py_int (float64 (scaled_width frame / real STRIDE)) * int STRIDE"
  have nb: "\<not> base_width_calculated ?s" by (simp add: initial_session_def)
  have bw: "base_width frame = Inr ?w"
    using assms(2) by (simp add: base_width_def)
  from assms have ml: "main_loop env ?s 0 (Some frame # rest) = (out, s', ev)"
    by (simp add: main_def)
  have "configured_widths ev = [?w] \<and> IMAGE_WIDTH s' = Some ?w"
    using ml
  proof (cases rule: main_loop_Some)
    case (stop c ev1)
    from loop_body_width(2) [OF stop(1) nb bw] stop(3) show ?thesis
      by (simp add: log_Cons)
  next
    case (go s1 ev1 ev2)
    from loop_body_width(2) [OF go(1) nb bw]
    have a: "configured_widths ev1 = [?w]" "IMAGE_WIDTH s1 = Some ?w"
      "base_width_calculated s1" by simp_all
    from main_loop_configured [OF go(2) a(3)] a go(3) show ?thesis
      by (simp add: log_Cons log_append)
  qed
  with main_loop_tensors [OF ml] show ?thesis by blast
qed

text \<open>
  Two runs in video mode: the two frames 448 and 256 wide, and the square frame of 392
  pixels alone, for which the engine is configured with 248 and given a tensor 256 wide.
\<close>

theorem input_width_configured_once_witness:
  "(\<exists>out s' ev.
      main (env_demo True False) [] [Some frame_448x256, Some frame_256x256] = (out, s', ev)
      \<and> 0 < shape0 frame_448x256
      \<and> configured_widths ev = [448] \<and> IMAGE_WIDTH s' = Some 448
      \<and> tensor_widths ev = [448, 256]
      \<and> processed_width frame_448x256 = 448 \<and> processed_width frame_256x256 = 256)
   \<and> (\<exists>out s' ev.
      main (env_demo True False) [] [Some frame_392x392] = (out, s', ev)
      \<and> 0 < shape0 frame_392x392
      \<and> configured_widths ev = [248] \<and> IMAGE_WIDTH s' = Some 248
      \<and> tensor_widths ev = [256] \<and> processed_width frame_392x392 = 256)"
proof -
  from demo_run_two_frames obtain s' tensor_a tensor_b where
    run: "main (env_demo True False) [] [Some frame_448x256, Some frame_256x256]
       = (Finished, s',
          [Fetch 0, SetInputShape 1 3 256 448, NetUpdate tensor_a,
           ParsePoses 1 8 (0.8 * 448) True, Plot [] [], ShowCanvas, DrawPoses [],
           Elapsed (1 / 25), PutText 25, ShowFrame, WaitKey 1 (- 1),
           Fetch 1, NetUpdate tensor_b,
           ParsePoses 1 8 (0.8 * 448) True, Plot [] [], ShowCanvas, DrawPoses [],
           Elapsed (1 / 50), PutText (256 / 10), ShowFrame, WaitKey 1 (- 1)])"
    and w: "tensor_width tensor_a = 448" "tensor_width tensor_b = 256"
    by blast
  let ?ev = "[Fetch 0, SetInputShape 1 3 256 448, NetUpdate tensor_a,
           ParsePoses 1 8 (0.8 * 448) True, Plot [] [], ShowCanvas, DrawPoses [],
           Elapsed (1 / 25), PutText 25, ShowFrame, WaitKey 1 (- 1),
           Fetch 1, NetUpdate tensor_b,
           ParsePoses 1 8 (0.8 * 448) True, Plot [] [], ShowCanvas, DrawPoses [],
           Elapsed (1 / 50), PutText (256 / 10), ShowFrame, WaitKey 1 (- 1)]"
  have h: "0 < shape0 frame_448x256" by (simp add: demo_frames)
  have v: "py_int (float64 (scaled_width frame_448x256 / real STRIDE)) * int STRIDE = 448"
    using base_width_demo(1) by (simp add: base_width_def demo_frames)
  from input_width_configured_once [OF run h]
  have c: "configured_widths ?ev = [448]" "IMAGE_WIDTH s' = Some 448"
    by (simp_all only: v)
  have t: "tensor_widths ?ev = [448, 256]"
    by (simp add: log_Cons log_Nil w)
  have p: "processed_width frame_448x256 = 448" "processed_width frame_256x256 = 256"
    by (simp_all add: processed_width_def demo_frames IMAGE_HEIGHT_def STRIDE_def cv_round_def)
  from run h c t p have first: "\<exists>out s' ev.
      main (env_demo True False) [] [Some frame_448x256, Some frame_256x256] = (out, s', ev)
      \<and> 0 < shape0 frame_448x256
      \<and> configured_widths ev = [448] \<and> IMAGE_WIDTH s' = Some 448
      \<and> tensor_widths ev = [448, 256]
      \<and> processed_width frame_448x256 = 448 \<and> processed_width frame_256x256 = 256"
    by blast
  from preprocess_392x392 obtain img tensor where
    q: "preprocess interp_corner frame_392x392 = Inr (256 / 392, img, tensor)"
    "tensor_width tensor = 256"
    by blast
  obtain out2 s2 ev2 where
    run2: "main (env_demo True False) [] [Some frame_392x392] = (out2, s2, ev2)"
    by (cases "main (env_demo True False) [] [Some frame_392x392]") auto
  have h2: "0 < shape0 frame_392x392" by (simp add: frame_392x392_shape)
  have v2: "py_int (float64 (scaled_width frame_392x392 / real STRIDE)) * int STRIDE = 248"
    using base_width_392x392(1) by (simp add: base_width_def frame_392x392_shape)
  from input_width_configured_once [OF run2 h2]
  have c2: "configured_widths ev2 = [248]" "IMAGE_WIDTH s2 = Some 248"
    by (simp_all only: v2)
  have t2: "tensor_widths ev2 = [256]"
    using run2 q
    by (auto simp: run_defs base_width_392x392(1) frame_392x392_shape log_Cons log_Nil)
  from run2 h2 c2 t2 base_width_392x392(3) have second: "\<exists>out s' ev.
      main (env_demo True False) [] [Some frame_392x392] = (out, s', ev)
      \<and> 0 < shape0 frame_392x392
      \<and> configured_widths ev = [248] \<and> IMAGE_WIDTH s' = Some 248
      \<and> tensor_widths ev = [256] \<and> processed_width frame_392x392 = 256"
    by blast
  from first second show ?thesis by (rule conjI)
qed


text \<open>
  Claim C4. At the end of any run, with the measured frame times in the order they were
  taken, the smoothed estimate \<^verbatim>\<open>mean_time\<close> is the specification's moving average of
  them: it equals the sample after the first one, and after each later sample \<open>c\<close> it
  is \<open>0.95\<close> times the estimate of the samples before plus \<open>0.05 * c\<close>. Floats are read
  as reals.
\<close>

theorem fps_estimate_is_ema:
  assumes "main env ks frames = (out, s', ev)"
  shows "(samples ev \<noteq> [] \<longrightarrow> mean_time s' = spec_ema (rev (samples ev)))
       \<and> (\<forall>c. samples ev = [c] \<longrightarrow> mean_time s' = c)
       \<and> (\<forall>cs c. samples ev = cs @ [c] \<and> cs \<noteq> [] \<longrightarrow>
             mean_time s' = 0.95 * spec_ema (rev cs) + 0.05 * c)"
proof -
  from assms have "main_loop env (initial_session ks) 0 frames = (out, s', ev)"
    by (simp add: main_def)
  from main_loop_ema [OF this, of "[]"]
  have m: "mean_time s' = spec_ema (rev (samples ev))"
    by (simp add: initial_session_def)
  then show ?thesis by (auto simp: spec_ema_Cons)
qed

theorem fps_estimate_is_ema_witness:
  "\<exists>out s1 ev1 s2 ev2.
      main (env_demo True False) [] [Some frame_448x256] = (out, s1, ev1)
      \<and> samples ev1 = [1 / 25] \<and> mean_time s1 = 1 / 25
      \<and> main (env_demo True False) [] [Some frame_448x256, Some frame_256x256] = (out, s2, ev2)
      \<and> samples ev2 = [1 / 25] @ [1 / 50] \<and> [1 / 25 :: real] \<noteq> []
      \<and> mean_time s2 = 0.95 * (1 / 25) + 0.05 * (1 / 50)"
proof -
  from demo_preprocess obtain img_a tensor_a where
    p: "preprocess interp_corner frame_448x256 = Inr (1, img_a, tensor_a)"
    by blast
  obtain out1 s1 ev1 where
    r1: "main (env_demo True False) [] [Some frame_448x256] = (out1, s1, ev1)"
    by (cases "main (env_demo True False) [] [Some frame_448x256]") auto
  have o1: "out1 = Finished" and e1: "samples ev1 = [1 / 25]"
    using r1 by (auto simp: run_defs p demo_frames log_Cons log_Nil)
  from demo_run_two_frames obtain s2 tensor_a' tensor_b where
    run: "main (env_demo True False) [] [Some frame_448x256, Some frame_256x256]
       = (Finished, s2,
          [Fetch 0, SetInputShape 1 3 256 448, NetUpdate tensor_a',
           ParsePoses 1 8 (0.8 * 448) True, Plot [] [], ShowCanvas, DrawPoses [],
           Elapsed (1 / 25), PutText 25, ShowFrame, WaitKey 1 (- 1),
           Fetch 1, NetUpdate tensor_b,
           ParsePoses 1 8 (0.8 * 448) True, Plot [] [], ShowCanvas, DrawPoses [],
           Elapsed (1 / 50), PutText (256 / 10), ShowFrame, WaitKey 1 (- 1)])"
    by blast
  let ?ev = "[Fetch 0, SetInputShape 1 3 256 448, NetUpdate tensor_a',
           ParsePoses 1 8 (0.8 * 448) True, Plot [] [], ShowCanvas, DrawPoses [],
           Elapsed (1 / 25), PutText 25, ShowFrame, WaitKey 1 (- 1),
           Fetch 1, NetUpdate tensor_b,
           ParsePoses 1 8 (0.8 * 448) True, Plot [] [], ShowCanvas, DrawPoses [],
           Elapsed (1 / 50), PutText (256 / 10), ShowFrame, WaitKey 1 (- 1)]"
  have e2: "samples ?ev = [1 / 25] @ [1 / 50]"
    by (simp add: log_Cons log_Nil)
  from fps_estimate_is_ema [OF r1] e1 have m1: "mean_time s1 = 1 / 25"
    by simp
  have ne: "[1 / 25 :: real] \<noteq> []" by simp
  from fps_estimate_is_ema [OF run] e2 ne
  have m2: "mean_time s2 = 0.95 * spec_ema (rev [1 / 25]) + 0.05 * (1 / 50)"
    by blast
  then have m2': "mean_time s2 = 0.95 * (1 / 25) + 0.05 * (1 / 50)" by simp
  from r1 o1 e1 m1 run e2 ne m2' show ?thesis by blast
qed


text \<open>
  Claim C8. If in an iteration the decoder returns no 3D pose, the transformer does
  nothing (it returns empty points and an empty edge list without inverting \<open>R\<close>), the
  only scene handed to the renderer is the empty one, the canvas and the frame are shown
  (video) or written (image), and the iteration does not end in an error, provided the
  measured time is positive. The renderer and the display calls are outside the
  sources; the model logs the calls and lets them return.
\<close>

theorem zero_poses_frame_completes:
  assumes run: "loop_body env s frame_id frame = (c, s', ev)"
    and net: "NetUpdate a \<in> set ev"
    and dec: "ParsePoses input_scale stride f video \<in> set ev"
    and zero: "fst (parse_poses env (net_results env a) input_scale stride f video) = []"
    and time: "0 < tick_elapsed env frame_id" "0 \<le> mean_time s"
  shows "coordinate_transform (extrinsics_R env) (extrinsics_t env) (SKELETON_EDGES env) []
           = Inr ([], [])
       \<and> (\<forall>e. c \<noteq> Raise e)
       \<and> set (scenes ev) = {([], [])}
       \<and> (if is_video env then ShowCanvas \<in> set ev \<and> ShowFrame \<in> set ev
           else WriteCanvas frame_id \<in> set ev \<and> WriteFrame \<in> set ev)"
proof -
  have noop: "coordinate_transform (extrinsics_R env) (extrinsics_t env)
                (SKELETON_EDGES env) [] = Inr ([], [])"
    by (simp add: coordinate_transform_def)
  from run show ?thesis
  proof (cases rule: loop_body_cases)
    case (width_error e)
    with net show ?thesis by simp
  next
    case (preprocess_error e s1 ev1)
    with net configure_width_members(1) [OF preprocess_error(1)] show ?thesis by simp
  next
    case (transform_error e s1 ev1 sc img normalized)
    note cm = configure_width_members [OF transform_error(1)]
    from net dec transform_error(6) cm have "a = normalized"
      "input_scale = sc \<and> stride = STRIDE \<and> f = fx (focal_length s1 frame)
        \<and> video = is_video env"
      by (auto split: if_splits)
    with zero transform_error(3) noop show ?thesis by simp
  next
    case (rendered s1 ev1 sc img normalized poses_3d edges ev3)
    note cm = configure_width_members [OF rendered(1)]
    from rendered(4) show ?thesis
    proof (cases rule: render_and_control_cases)
      case zero
      from update_mean_time_pos [OF time(1), of "mean_time (focal_length s1 frame)"]
        time(2) cm(3) zero(1)
      show ?thesis by (simp add: focal_length_fields)
    next
      case (shown fps ev2)
      note pm = poll_event_members [OF playback_control_events [OF shown(2)]]
      note ps = playback_control_session(5) [OF shown(2)]
      from net dec rendered(5) shown(3) cm pm have "a = normalized"
        "input_scale = sc \<and> stride = STRIDE \<and> f = fx (focal_length s1 frame)
          \<and> video = is_video env"
        by (auto split: if_splits)
      with \<open>fst (parse_poses env (net_results env a) input_scale stride f video) = []\<close>
        rendered(3) noop
      have pe: "poses_3d = []" "edges = []" by simp_all
      from render_and_control_log [OF rendered(4)] rendered(5)
        configure_width_log(6) [OF rendered(1)] pe
      have sc: "set (scenes ev) = {([], [])}"
        by (simp add: log_append log_Cons log_Nil log_replicate_NetUpdate)
      from rendered(5) shown(3)
      have sh: "if is_video env then ShowCanvas \<in> set ev \<and> ShowFrame \<in> set ev
           else WriteCanvas frame_id \<in> set ev \<and> WriteFrame \<in> set ev"
        by simp
      from noop ps sc sh show ?thesis by auto
    qed
  qed
qed

theorem zero_poses_frame_completes_witness:
  "\<exists>c s' ev a.
      loop_body (env_demo True False) (initial_session []) 0 frame_448x256 = (c, s', ev)
      \<and> NetUpdate a \<in> set ev \<and> ParsePoses 1 8 (0.8 * 448) True \<in> set ev
      \<and> fst (parse_poses (env_demo True False) (net_results (env_demo True False) a)
               1 8 (0.8 * 448) True) = []
      \<and> 0 < tick_elapsed (env_demo True False) 0 \<and> 0 \<le> mean_time (initial_session [])
      \<and> c = Continue \<and> set (scenes ev) = {([], [])}
      \<and> ShowCanvas \<in> set ev \<and> ShowFrame \<in> set ev"
proof -
  from demo_preprocess obtain img_a tensor_a where
    p: "preprocess interp_corner frame_448x256 = Inr (1, img_a, tensor_a)"
    by blast
  let ?ev = "[SetInputShape 1 3 256 448, NetUpdate tensor_a,
           ParsePoses 1 8 (0.8 * 448) True, Plot [] [], ShowCanvas, DrawPoses [],
           Elapsed (1 / 25), PutText 25, ShowFrame, WaitKey 1 (- 1)]"
  obtain s' where
    run: "loop_body (env_demo True False) (initial_session []) 0 frame_448x256
            = (Continue, s', ?ev)"
    by (simp add: run_defs p demo_frames)
  have n: "NetUpdate tensor_a \<in> set ?ev" and d: "ParsePoses 1 8 (0.8 * 448) True \<in> set ?ev"
    by simp_all
  have z: "fst (parse_poses (env_demo True False) (net_results (env_demo True False) tensor_a)
               1 8 (0.8 * 448) True) = []"
    by (simp add: env_demo_def)
  have t: "0 < tick_elapsed (env_demo True False) 0" "0 \<le> mean_time (initial_session [])"
    by (simp_all add: env_demo_def initial_session_def)
  from zero_poses_frame_completes [OF run n d z t]
  have "set (scenes ?ev) = {([], [])}" "ShowCanvas \<in> set ?ev \<and> ShowFrame \<in> set ?ev"
    by (simp_all add: env_demo_def)
  with run n d z t show ?thesis by blast
qed


lemma wait_delays_simps:
  "wait_delays [] = []"
  "wait_delays (e # ev) = waited e @ wait_delays ev"
  "wait_delays (a @ b) = wait_delays a @ wait_delays b"
  by (simp_all add: wait_delays_def)

lemma wait_delays_replicate_NetUpdate: "wait_delays (replicate n (NetUpdate a)) = []"
  by (induction n) (simp_all add: wait_delays_simps)

lemma rotate_loop_delays:
  "rotate_loop poses_3d edges key ks = (r, ks', ev) \<Longrightarrow> set (wait_delays ev) \<subseteq> {33}"
proof (induction poses_3d edges key ks arbitrary: r ks' ev rule: rotate_loop.induct)
  case (1 poses_3d edges key ks)
  show ?case
  proof (cases "key \<noteq> p_code \<and> key \<noteq> esc_code \<and> key \<noteq> space_code")
    case False
    with "1.prems" show ?thesis by (auto simp: rotate_loop.simps wait_delays_simps)
  next
    case True
    show ?thesis
    proof (cases ks)
      case Nil
      with True "1.prems" show ?thesis by (auto simp: rotate_loop.simps wait_delays_simps)
    next
      case (Cons k rest)
      obtain r1 ks1 ev1 where rec: "rotate_loop poses_3d edges k rest = (r1, ks1, ev1)"
        by (cases "rotate_loop poses_3d edges k rest") auto
      from "1.IH" [OF True Cons rec]
      have "set (wait_delays ev1) \<subseteq> {33}" .
      moreover from "1.prems" True Cons rec
      have "ev = [Plot poses_3d edges, ShowCanvas, WaitKey 33 k] @ ev1"
        by (simp add: rotate_loop.simps [of _ _ key])
      ultimately show ?thesis by (simp add: wait_delays_simps)
    qed
  qed
qed

lemma playback_control_rotate_delay:
  assumes "playback_control True poses_3d edges s = (c, s', ev)" "delay s = 1"
  shows "set (wait_delays ev) \<subseteq> {1, 33} \<and> (c = Continue \<longrightarrow> delay s' = 1)"
  using assms(1)
proof (cases rule: playback_control_cases)
  case blocked
  then show ?thesis by (simp add: wait_delays_simps)
next
  case (escape ks)
  with assms(2) show ?thesis by (simp add: wait_delays_simps)
next
  case (plain key ks d)
  with assms(2) show ?thesis by (auto simp: wait_delays_simps)
next
  case (rotate key ks r ks' ev')
  from rotate_loop_delays [OF rotate(5)] rotate(6,7) assms(2) show ?thesis
    by (auto simp: wait_delays_simps)
qed

lemma loop_body_rotate_delay:
  assumes "loop_body env s frame_id frame = (c, s', ev)" "rotate3d env" "delay s = 1"
  shows "set (wait_delays ev) \<subseteq> {1, 33} \<and> (c = Continue \<longrightarrow> delay s' = 1)"
  using assms(1)
proof (cases rule: loop_body_cases)
  case (width_error e)
  then show ?thesis by (simp add: wait_delays_simps)
next
  case (preprocess_error e s1 ev1)
  from preprocess_error(1) show ?thesis
    by (cases rule: configure_width_cases)
       (use preprocess_error in \<open>auto simp: wait_delays_simps\<close>)
next
  case (transform_error e s1 ev1 input_scale img normalized)
  from transform_error(1) show ?thesis
    by (cases rule: configure_width_cases)
       (use transform_error in \<open>auto simp: wait_delays_simps wait_delays_replicate_NetUpdate\<close>)
next
  case (rendered s1 ev1 input_scale img normalized poses_3d edges ev3)
  have d1: "delay (focal_length s1 frame) = 1" and w1: "wait_delays ev1 = []"
    using rendered(1) assms(3)
    by (cases rule: configure_width_cases; simp add: focal_length_fields wait_delays_simps)+
  from rendered(4) have "set (wait_delays ev3) \<subseteq> {1, 33} \<and> (c = Continue \<longrightarrow> delay s' = 1)"
  proof (cases rule: render_and_control_cases)
    case zero
    then show ?thesis by (simp add: wait_delays_simps)
  next
    case (shown fps ev2)
    from shown(2) assms(2) have pc: "playback_control True poses_3d edges
         (focal_length s1 frame\<lparr>mean_time :=
            update_mean_time (mean_time (focal_length s1 frame)) (tick_elapsed env frame_id)\<rparr>)
         = (c, s', ev2)"
      by simp
    from d1 have "delay (focal_length s1 frame\<lparr>mean_time :=
            update_mean_time (mean_time (focal_length s1 frame)) (tick_elapsed env frame_id)\<rparr>)
          = 1"
      by simp
    from playback_control_rotate_delay [OF pc this]
    have "set (wait_delays ev2) \<subseteq> {1, 33} \<and> (c = Continue \<longrightarrow> delay s' = 1)" .
    with shown(3) show ?thesis by (auto simp: wait_delays_simps)
  qed
  with rendered(5) w1 show ?thesis
    by (auto simp: wait_delays_simps wait_delays_replicate_NetUpdate)
qed

lemma main_loop_rotate_delay:
  assumes "main_loop env s frame_id frames = (out, s', ev)" "rotate3d env" "delay s = 1"
  shows "set (wait_delays ev) \<subseteq> {1, 33}"
  using assms
proof (induction frames arbitrary: s frame_id out s' ev)
  case Nil
  then show ?case by (auto simp: wait_delays_simps)
next
  case (Cons fo frames)
  show ?case
  proof (cases fo)
    case None
    with Cons.prems show ?thesis by (auto simp: wait_delays_simps)
  next
    case (Some frame)
    from Cons.prems(1) [unfolded Some] show ?thesis
    proof (cases rule: main_loop_Some)
      case (stop c ev1)
      from loop_body_rotate_delay [OF stop(1) Cons.prems(2,3)] stop(3) show ?thesis
        by (auto simp: wait_delays_simps)
    next
      case (go s1 ev1 ev2)
      from loop_body_rotate_delay [OF go(1) Cons.prems(2,3)]
      have a: "set (wait_delays ev1) \<subseteq> {1, 33}" "delay s1 = 1" by simp_all
      from Cons.IH [OF go(2) Cons.prems(2) a(2)] a(1) go(3) show ?thesis
        by (auto simp: wait_delays_simps)
    qed
  qed
qed

text \<open>
  Claim C1 says that no frame is fetched while the delay is 0. Without the rotate
  option it is: after the pause key (112) frame 1 is fetched and shown with
  \<^verbatim>\<open>waitKey(0)\<close>, and the unknown key 97 lets the loop fetch frame 2, still with delay 0.
\<close>

theorem frozen_state_fetches_frames:
  "filter is_playback (snd (snd (main (env_demo True False) [112, 97, 27] frames3)))
     = [Fetch 0, WaitKey 1 112, Fetch 1, WaitKey 0 97, Fetch 2, WaitKey 0 27]"
proof -
  from demo_preprocess obtain img_b tensor_b where
    p: "preprocess interp_corner frame_256x256 = Inr (1, img_b, tensor_b)"
    by blast
  show ?thesis
    by (simp add: run_defs frames3_def p demo_frames)
qed

text \<open>
  Claim C1, amended. With the rotate option, the pause key starts the poll: key codes
  other than escape, pause and space are ignored (each only redraws the scene and polls
  again), no frame is fetched, escape ends the loop, and the pause key and the space key
  both return to a delay of 1. Without the rotate option, a key arriving at delay 0 ends
  the loop if it is escape, returns to a delay of 1 if it is the pause key, and
  otherwise leaves the delay at 0; and whenever an iteration ends by continuing, at
  delay 0 as well, the loop fetches the next frame. With the rotate option a run never
  waits with delay 0: its frozen state is the poll.
\<close>

theorem frozen_state_transitions:
  "(list_all unknown_key pre \<and> \<not> unknown_key k
      \<and> delay s1 = 1 \<and> pending_keys s1 = p_code # pre @ k # post
    \<longrightarrow> playback_control True poses_3d edges s1
           = (if k = esc_code then Break else Continue,
              s1\<lparr>delay := (if k = esc_code then 0 else 1), pending_keys := post\<rparr>,
              WaitKey 1 p_code # concat (map (poll_round poses_3d edges) (pre @ [k])))
        \<and> (\<forall>n. Fetch n \<notin> set (concat (map (poll_round poses_3d edges) (pre @ [k])))))
   \<and> (delay s0 = 0 \<and> pending_keys s0 = key # ks
    \<longrightarrow> playback_control False poses_3d edges s0
           = (if key = esc_code then Break else Continue,
              s0\<lparr>delay := (if key = p_code then 1 else 0), pending_keys := ks\<rparr>,
              [WaitKey 0 key]))
   \<and> (loop_body env s frame_id frame = (Continue, s2, ev0)
        \<and> main_loop env s frame_id (Some frame # Some frame' # rest) = (out, s', ev)
    \<longrightarrow> (\<exists>ev2. ev = Fetch frame_id # ev0 @ Fetch (Suc frame_id) # ev2))
   \<and> (rotate3d env' \<and> main env' ks' frames = (out', s'', ev')
    \<longrightarrow> set (wait_delays ev') \<subseteq> {1, 33})"
proof (intro conjI impI; (elim conjE)?)
  assume h: "list_all unknown_key pre" "\<not> unknown_key k"
    "delay s1 = 1" "pending_keys s1 = p_code # pre @ k # post"
  have u0: "unknown_key 0"
    by (simp add: unknown_key_def p_code_def esc_code_def space_code_def)
  have pe: "p_code \<noteq> esc_code" by (simp add: p_code_def esc_code_def)
  from rotate_loop_until [OF h(1,2) u0]
  have rl: "rotate_loop poses_3d edges 0 (pre @ k # post)
           = (Some k, post, concat (map (poll_round poses_3d edges) (pre @ [k])))" .
  show "playback_control True poses_3d edges s1
           = (if k = esc_code then Break else Continue,
              s1\<lparr>delay := (if k = esc_code then 0 else 1), pending_keys := post\<rparr>,
              WaitKey 1 p_code # concat (map (poll_round poses_3d edges) (pre @ [k])))"
    using h(3,4) pe rl by (simp add: playback_control_def wait_key_def Let_def)
  show "\<forall>n. Fetch n \<notin> set (concat (map (poll_round poses_3d edges) (pre @ [k])))"
    using no_fetch_in_poll by blast
next
  assume h: "delay s0 = 0" "pending_keys s0 = key # ks"
  have pe: "p_code \<noteq> esc_code" by (simp add: p_code_def esc_code_def)
  show "playback_control False poses_3d edges s0
           = (if key = esc_code then Break else Continue,
              s0\<lparr>delay := (if key = p_code then 1 else 0), pending_keys := ks\<rparr>,
              [WaitKey 0 key])"
    using h pe by (auto simp: playback_control_def wait_key_def Let_def)
next
  assume b: "loop_body env s frame_id frame = (Continue, s2, ev0)"
    and m: "main_loop env s frame_id (Some frame # Some frame' # rest) = (out, s', ev)"
  obtain out3 s3 ev3 where
    r: "main_loop env s2 (Suc frame_id) (Some frame' # rest) = (out3, s3, ev3)"
    by (cases "main_loop env s2 (Suc frame_id) (Some frame' # rest)") auto
  then obtain ev4 where "ev3 = Fetch (Suc frame_id) # ev4"
    by (cases rule: main_loop_Some) auto
  with b m r show "\<exists>ev2. ev = Fetch frame_id # ev0 @ Fetch (Suc frame_id) # ev2"
    by auto
next
  assume "rotate3d env'" and "main env' ks' frames = (out', s'', ev')"
  then show "set (wait_delays ev') \<subseteq> {1, 33}"
    using main_loop_rotate_delay [of env' "initial_session ks'" 0 frames out' s'' ev']
    by (simp add: main_def initial_session_def)
qed

theorem frozen_state_transitions_witness:
  "list_all unknown_key [97, - 1] \<and> \<not> unknown_key 32
   \<and> delay (initial_session [112, 97, - 1, 32, 5]) = 1
   \<and> pending_keys (initial_session [112, 97, - 1, 32, 5]) = p_code # [97, - 1] @ 32 # [5]
   \<and> playback_control True [] [] (initial_session [112, 97, - 1, 32, 5])
       = (Continue, initial_session [5],
          [WaitKey 1 112, Plot [] [], ShowCanvas, WaitKey 33 97,
           Plot [] [], ShowCanvas, WaitKey 33 (- 1), Plot [] [], ShowCanvas, WaitKey 33 32])
   \<and> delay ((initial_session [97, 27])\<lparr>delay := 0\<rparr>) = 0
   \<and> pending_keys ((initial_session [97, 27])\<lparr>delay := 0\<rparr>) = 97 # [27]
   \<and> playback_control False [] [] ((initial_session [97, 27])\<lparr>delay := 0\<rparr>)
       = (Continue, (initial_session [27])\<lparr>delay := 0\<rparr>, [WaitKey 0 97])
   \<and> (\<exists>s2 ev0 out s' ev ev2.
         loop_body (env_demo True False) (initial_session [112, 97]) 0 frame_256x256
           = (Continue, s2, ev0) \<and> delay s2 = 0
       \<and> main_loop (env_demo True False) (initial_session [112, 97]) 0
            (Some frame_256x256 # Some frame_256x256 # []) = (out, s', ev)
       \<and> ev = Fetch 0 # ev0 @ Fetch (Suc 0) # ev2)
   \<and> rotate3d (env_demo True True)
   \<and> (\<exists>out s' ev.
         main (env_demo True True) [112, 97, 32] [Some frame_256x256, Some frame_256x256]
           = (out, s', ev)
       \<and> wait_delays ev = [1, 33, 33, 1])"
proof -
  let ?s1 = "initial_session [112, 97, - 1, 32, 5]"
  let ?s0 = "(initial_session [97, 27])\<lparr>delay := 0\<rparr>"
  have a: "list_all unknown_key [97, - 1]" "\<not> unknown_key 32" "delay ?s1 = 1"
    "pending_keys ?s1 = p_code # [97, - 1] @ 32 # [5]"
    by (simp_all add: unknown_key_def initial_session_def p_code_def esc_code_def
        space_code_def)
  have b: "delay ?s0 = 0" "pending_keys ?s0 = 97 # [27]"
    by (simp_all add: initial_session_def)
  from demo_preprocess obtain img_b tensor_b where
    p: "preprocess interp_corner frame_256x256 = Inr (1, img_b, tensor_b)"
    by blast
  obtain s2 ev0 where
    c1: "loop_body (env_demo True False) (initial_session [112, 97]) 0 frame_256x256
           = (Continue, s2, ev0)" and d2: "delay s2 = 0"
    by (simp add: run_defs p demo_frames)
  obtain out s' ev where
    c2: "main_loop (env_demo True False) (initial_session [112, 97]) 0
            (Some frame_256x256 # Some frame_256x256 # []) = (out, s', ev)"
    by (cases "main_loop (env_demo True False) (initial_session [112, 97]) 0
            (Some frame_256x256 # Some frame_256x256 # [])") auto
  have c3: "rotate3d (env_demo True True)" by (simp add: env_demo_def)
  obtain out4 s4 ev4 where
    c4: "main (env_demo True True) [112, 97, 32] [Some frame_256x256, Some frame_256x256]
           = (out4, s4, ev4)"
    by (cases "main (env_demo True True) [112, 97, 32]
                 [Some frame_256x256, Some frame_256x256]") auto
  then have w4: "wait_delays ev4 = [1, 33, 33, 1]"
    by (auto simp: run_defs p demo_frames wait_delays_simps rotate_loop.simps)
  note t = frozen_state_transitions [of "[97, - 1]" 32 ?s1 "[5]" "[]" "[]" ?s0 97 "[27]"
      "env_demo True False" "initial_session [112, 97]" 0 frame_256x256 s2 ev0
      frame_256x256 "[]" out s' ev "env_demo True True" "[112, 97, 32]"
      "[Some frame_256x256, Some frame_256x256]" out4 s4 ev4]
  from t a have r1: "playback_control True [] [] ?s1
       = (Continue, initial_session [5],
          [WaitKey 1 112, Plot [] [], ShowCanvas, WaitKey 33 97,
           Plot [] [], ShowCanvas, WaitKey 33 (- 1), Plot [] [], ShowCanvas, WaitKey 33 32])"
    by (simp add: poll_round_def initial_session_def p_code_def esc_code_def)
  from t b have r2: "playback_control False [] [] ?s0
       = (Continue, (initial_session [27])\<lparr>delay := 0\<rparr>, [WaitKey 0 97])"
    by (simp add: initial_session_def p_code_def esc_code_def)
  from t c1 c2 obtain ev2 where r3: "ev = Fetch 0 # ev0 @ Fetch (Suc 0) # ev2"
    by blast
  from t c3 c4 have "set (wait_delays ev4) \<subseteq> {1, 33}" by blast
  from a b r1 r2 c1 d2 c2 r3 c3 c4 w4 show ?thesis by blast
qed


end
